theory Spec2Isabelle
  imports Main "HOL-Library.Char_ord" "HOL-Library.List_Lexorder" "HOL-Library.Sublist"
begin

section \<open>Python values, exceptions and the log\<close>

text \<open>
  The exceptions that the modelled code can raise.  A computation that may raise
  returns a value of type \<open>exn + 'a\<close>, with \<open>Inl\<close> for the exception.
\<close>

datatype exn =
    DropItem
  | TimeoutException
  | NoSuchElementException
  | WebDriverException
  | JSONDecodeError
  | FileNotFoundError
  | AttributeError
  | TypeError
  | KeyError
  | ValueError
  | IndexError
  | UnicodeDecodeError | IsADirectoryError

text \<open>
  A line written to the log.  The text is the constant part of the message; the
  interpolated URL or exception text of an f-string is left out, an interpolated
  counter is kept as the integer of \<open>LogInfoValue\<close>.
\<close>

datatype log_entry =
    LogInfo string
  | LogInfoValue string int
  | LogWarning string
  | LogError string

section \<open>items.py: the product item\<close>

text \<open>
  \<open>ProductItem\<close> declares ten fields.  An item is a dictionary from the declared
  fields to values; a field that was never set is absent (\<open>item.get\<close> returns
  \<open>None\<close> for it).
\<close>

datatype field =
    Name | Url | Sku | ProductID | Image | Price | Description
  | Main_category | Sub_categories | Variant_name

type_synonym 'v item = "field \<rightharpoonup> 'v"

section \<open>Parsed JSON documents and the Python operations on them\<close>

text \<open>
  What \<open>json.load\<close> and \<open>json.loads\<close> return: \<open>None\<close>, a bool, a number, a \<open>str\<close>,
  a list or a dict.  A dict is an association list in insertion order with distinct
  keys.  Numbers are kept as integers; the modelled code never computes with them.
  The same type holds the values of item fields.
\<close>

datatype json =
    JNull
  | JBool bool
  | JNum int
  | JStr string
  | JArr "json list"
  | JObj "(string \<times> json) list"

text \<open>Truth value of a Python object, as \<open>if x:\<close> tests it.\<close>

fun truthy :: "json \<Rightarrow> bool" where
  "truthy JNull = False"
| "truthy (JBool b) = b"
| "truthy (JNum n) = (n \<noteq> 0)"
| "truthy (JStr s) = (s \<noteq> [])"
| "truthy (JArr xs) = (xs \<noteq> [])"
| "truthy (JObj kvs) = (kvs \<noteq> [])"

text \<open>
  \<open>x.get(key)\<close> and \<open>x.get(key, default)\<close>: only a dict has the method, any other
  object raises \<open>AttributeError\<close>.  A missing key gives \<open>None\<close>, or the default.
\<close>

fun py_get_default :: "json \<Rightarrow> string \<Rightarrow> json \<Rightarrow> exn + json" where
  "py_get_default (JObj kvs) key d = Inr (case map_of kvs key of None \<Rightarrow> d | Some v \<Rightarrow> v)"
| "py_get_default x key d = Inl AttributeError"

definition py_get :: "json \<Rightarrow> string \<Rightarrow> exn + json" where
  "py_get x key = py_get_default x key JNull"

text \<open>\<open>len(x)\<close>: defined for a list, a \<open>str\<close> and a dict, \<open>TypeError\<close> otherwise.\<close>

fun py_len :: "json \<Rightarrow> exn + nat" where
  "py_len (JArr xs) = Inr (length xs)"
| "py_len (JStr s) = Inr (length s)"
| "py_len (JObj kvs) = Inr (length kvs)"
| "py_len x = Inl TypeError"

text \<open>
  \<open>x[i]\<close> for an index \<open>i \<ge> 0\<close>: an element of a list, a character of a \<open>str\<close>;
  a dict parsed from JSON has only \<open>str\<close> keys, so an integer key raises
  \<open>KeyError\<close>; other objects are not subscriptable.
\<close>

fun py_index :: "json \<Rightarrow> nat \<Rightarrow> exn + json" where
  "py_index (JArr xs) i = (if i < length xs then Inr (xs ! i) else Inl IndexError)"
| "py_index (JStr s) i = (if i < length s then Inr (JStr [s ! i]) else Inl IndexError)"
| "py_index (JObj kvs) i = Inl KeyError"
| "py_index x i = Inl TypeError"

text \<open>
  The slice \<open>x[2:-1]\<close>, as the list of its elements: the elements at the indices
  \<open>2 \<le> i < len(x) - 1\<close>.  Slicing a dict raises (\<open>TypeError\<close> up to Python 3.11,
  \<open>KeyError\<close> from 3.12 on; the handler around the one use catches both).
\<close>

fun py_slice_2_to_last :: "json \<Rightarrow> exn + json list" where
  "py_slice_2_to_last (JArr xs) = Inr (drop 2 (butlast xs))"
| "py_slice_2_to_last (JStr s) = Inr (map (\<lambda>c. JStr [c]) (drop 2 (butlast s)))"
| "py_slice_2_to_last (JObj kvs) = Inl KeyError"
| "py_slice_2_to_last x = Inl TypeError"

text \<open>
  \<open>for v in x\<close>: the elements of a list, the keys of a dict, the characters of a
  \<open>str\<close>; \<open>TypeError\<close> for an object that is not iterable.
\<close>

fun py_iter :: "json \<Rightarrow> exn + json list" where
  "py_iter (JArr xs) = Inr xs"
| "py_iter (JObj kvs) = Inr (map (\<lambda>kv. JStr (fst kv)) kvs)"
| "py_iter (JStr s) = Inr (map (\<lambda>c. JStr [c]) s)"
| "py_iter x = Inl TypeError"

text \<open>\<open>sep.join(parts)\<close>.\<close>

fun py_join :: "string \<Rightarrow> string list \<Rightarrow> string" where
  "py_join sep [] = []"
| "py_join sep [x] = x"
| "py_join sep (x # y # ys) = x @ sep @ py_join sep (y # ys)"

text \<open>
  \<open>str.strip()\<close> removes the whitespace at both ends.  A character is read as a code
  point below 256; these are the ones for which \<open>str.isspace\<close> holds.
\<close>

definition py_isspace :: "char \<Rightarrow> bool" where
  "py_isspace c = (of_char c \<in> {9, 10, 11, 12, 13, 28, 29, 30, 31, 32, 133, 160 :: nat})"

definition py_strip :: "string \<Rightarrow> string" where
  "py_strip s = rev (dropWhile py_isspace (rev (dropWhile py_isspace s)))"

text \<open>
  Requests handed to the scheduler, with the callback (and errback) they name.
  \<open>SeleniumRequest\<close> also carries its \<open>wait_time\<close>.
\<close>

datatype callback = Parse | Parse_sitemap | Parse_url_based_variants | Handle_error

datatype 'u request =
    Request 'u callback
  | SeleniumRequest 'u callback callback nat

text \<open>
  The constructor of \<open>scrapy.Request\<close> (and of its subclass \<open>SeleniumRequest\<close>)
  checks its \<open>url\<close> in \<open>_set_url\<close>: a value that is not a \<open>str\<close> raises
  \<open>TypeError\<close>; a \<open>str\<close> is normalised (stripped and percent-encoded by the
  libraries' \<open>safe_url_string\<close> and \<open>escape_ajax\<close>) and raises \<open>ValueError\<close>
  when the result has no scheme, that is, has no \<open>://\<close> and starts neither with
  \<open>about:\<close> nor with \<open>data:\<close>.  The normalisation is library code; it is the
  parameter \<open>norm\<close> of every function that builds a request, and gives the
  normalised URL, or \<open>None\<close> when it raises (a \<open>ValueError\<close>, from \<open>urlsplit\<close>).
  \<open>set_url\<close> gives the URL of the request, or the exception of the constructor;
  \<open>url_accepted\<close> tells whether the constructor takes a \<open>str\<close>.
\<close>

definition has_scheme :: "string \<Rightarrow> bool" where
  "has_scheme u = (sublist ''://'' u \<or> prefix ''about:'' u \<or> prefix ''data:'' u)"

fun set_url :: "(string \<Rightarrow> string option) \<Rightarrow> json \<Rightarrow> exn + string" where
  "set_url norm (JStr url) =
     (case norm url of
        None \<Rightarrow> Inl ValueError
      | Some u \<Rightarrow> if has_scheme u then Inr u else Inl ValueError)"
| "set_url norm v = Inl TypeError"

definition url_accepted :: "(string \<Rightarrow> string option) \<Rightarrow> json \<Rightarrow> bool" where
  "url_accepted norm v = (case set_url norm v of Inl e \<Rightarrow> False | Inr u \<Rightarrow> True)"

section \<open>pipelines.py: the deduplicating pipeline\<close>

text \<open>
  \<open>ProductScraperPipeline.__init__\<close>: the set of skus seen so far and the three
  counters of the \<open>stats\<close> dictionary.  The keys of \<open>stats\<close> are fixed at
  construction, so the dictionary is a record.

  \<open>seen_skus\<close> is a Python set.  A value can be put into a set, or looked up in
  one, only when it is hashable: \<open>None\<close>, a bool, a number and a \<open>str\<close> are, a
  list and a dict raise \<open>TypeError\<close>.  The set compares by \<open>==\<close>, for which
  \<open>True\<close> is \<open>1\<close> and \<open>False\<close> is \<open>0\<close>.  \<open>set_key\<close> gives the element that
  stands for a value in the set, with the bools taken to their numbers, or the
  \<open>TypeError\<close>.
\<close>

fun set_key :: "json \<Rightarrow> exn + json" where
  "set_key JNull = Inr JNull"
| "set_key (JBool b) = Inr (JNum (if b then 1 else 0))"
| "set_key (JNum n) = Inr (JNum n)"
| "set_key (JStr s) = Inr (JStr s)"
| "set_key (JArr xs) = Inl TypeError"
| "set_key (JObj kvs) = Inl TypeError"

record stats =
  processed :: int
  dropped :: int
  errors :: int

record pipeline =
  seen_skus :: "json set"
  stats :: stats

definition init_pipeline :: pipeline where
  "init_pipeline = \<lparr>seen_skus = {}, stats = \<lparr>processed = 0, dropped = 0, errors = 0\<rparr>\<rparr>"

text \<open>\<open>item.get('sku')\<close>: \<open>None\<close> for an item without the field.\<close>

definition sku_of :: "json item \<Rightarrow> json" where
  "sku_of item = (case item Sku of None \<Rightarrow> JNull | Some v \<Rightarrow> v)"

definition sku_key :: "json item \<Rightarrow> exn + json" where
  "sku_key item = set_key (sku_of item)"

text \<open>
  \<open>process_item\<close>: the test \<open>sku in self.seen_skus\<close> raises \<open>TypeError\<close> for a
  sku that is not hashable, before anything is changed.  Otherwise the function
  raises \<open>DropItem\<close> after counting a duplicate, or records the sku, counts the
  item and returns it.
\<close>

definition process_item :: "json item \<Rightarrow> pipeline \<Rightarrow> (exn + json item) \<times> pipeline" where
  "process_item item self =
     (let sku = sku_of item in
      case set_key sku of
        Inl e \<Rightarrow> (Inl e, self)
      | Inr k \<Rightarrow>
          if k \<in> seen_skus self
          then (Inl DropItem,
                self\<lparr>stats := (stats self)\<lparr>dropped := dropped (stats self) + 1\<rparr>\<rparr>)
          else (Inr item,
                self\<lparr>seen_skus := insert k (seen_skus self),
                     stats := (stats self)\<lparr>processed := processed (stats self) + 1\<rparr>\<rparr>))"

text \<open>
  The framework hands the items of the stream to \<open>process_item\<close> one after the
  other, on the one pipeline object; an exception of one call does not stop the
  stream.  \<open>process_items\<close> returns the outcome of every call, in order, and the
  pipeline after the last one.
\<close>

fun process_items :: "json item list \<Rightarrow> pipeline \<Rightarrow> (exn + json item) list \<times> pipeline" where
  "process_items [] self = ([], self)"
| "process_items (item # items) self =
     (case process_item item self of
        (r, self') \<Rightarrow> (case process_items items self' of (rs, self'') \<Rightarrow> (r # rs, self'')))"

text \<open>The feed holds the items that a call returned, in order.\<close>

fun returned :: "(exn + 'a) list \<Rightarrow> 'a list" where
  "returned [] = []"
| "returned (Inl e # rs) = returned rs"
| "returned (Inr x # rs) = x # returned rs"

fun raised :: "(exn + 'a) list \<Rightarrow> exn list" where
  "raised [] = []"
| "raised (Inl e # rs) = e # raised rs"
| "raised (Inr x # rs) = raised rs"

text \<open>
  The statistics collector of the crawler (\<open>spider.crawler.stats\<close>): a dictionary
  from keys to counters.  \<open>inc_value\<close> adds one to a counter, starting from zero
  for a key that is not there; \<open>set_value\<close> stores a value.
\<close>

type_synonym collector = "string \<rightharpoonup> int"

definition set_value :: "string \<Rightarrow> int \<Rightarrow> collector \<Rightarrow> collector" where
  "set_value key v c = c(key \<mapsto> v)"

definition inc_value :: "string \<Rightarrow> collector \<Rightarrow> collector" where
  "inc_value key c = c(key \<mapsto> (case c key of None \<Rightarrow> 0 | Some n \<Rightarrow> n) + 1)"

text \<open>
  \<open>close_spider\<close>: four lines to the log, then the three counters of the pipeline
  are stored in the collector of the crawler.
\<close>

definition close_spider :: "pipeline \<Rightarrow> collector \<Rightarrow> log_entry list \<times> collector" where
  "close_spider self c =
     ([LogInfo ''Product scraping summary:'',
       LogInfoValue ''Processed: '' (processed (stats self)),
       LogInfoValue ''Duplicates/Invalid Dropped: '' (dropped (stats self)),
       LogInfoValue ''Failed URLs: '' (errors (stats self))],
      set_value ''product_page_errors'' (errors (stats self))
        (set_value ''products_dropped_duplicates'' (dropped (stats self))
          (set_value ''products_processed'' (processed (stats self)) c)))"

text \<open>
  \<open>ProductSpider.handle_error\<close> (product_spider.py), the errback of every page
  request: one error line, and the counter \<open>product_page_errors\<close> of the crawler's
  collector goes up by one.
\<close>

definition handle_error :: "collector \<Rightarrow> log_entry list \<times> collector" where
  "handle_error c = ([LogError ''Request failed: ''], inc_value ''product_page_errors'' c)"

text \<open>
  A run of the extraction stage as the pipeline and the collector see it: every page
  request either fails (the errback runs) or delivers items to the pipeline; at the
  end \<open>close_spider\<close> runs.  The state is the pipeline, the collector and the log.
\<close>

datatype event = Failed_request | Scraped "json item"

record crawl =
  pipe :: pipeline
  crawler_stats :: collector
  logged :: "log_entry list"

definition init_crawl :: crawl where
  "init_crawl = \<lparr>pipe = init_pipeline, crawler_stats = Map.empty, logged = []\<rparr>"

fun crawl_event :: "event \<Rightarrow> crawl \<Rightarrow> crawl" where
  "crawl_event Failed_request s =
     (case handle_error (crawler_stats s) of
        (lg, c) \<Rightarrow> s\<lparr>crawler_stats := c, logged := logged s @ lg\<rparr>)"
| "crawl_event (Scraped item) s = s\<lparr>pipe := snd (process_item item (pipe s))\<rparr>"

definition crawl_close :: "crawl \<Rightarrow> crawl" where
  "crawl_close s =
     (case close_spider (pipe s) (crawler_stats s) of
        (lg, c) \<Rightarrow> s\<lparr>crawler_stats := c, logged := logged s @ lg\<rparr>)"

definition run_crawl :: "event list \<Rightarrow> crawl" where
  "run_crawl evs = crawl_close (foldl (\<lambda>s e. crawl_event e s) init_crawl evs)"

definition failed_requests :: "event list \<Rightarrow> nat" where
  "failed_requests evs = length (filter (\<lambda>e. e = Failed_request) evs)"

section \<open>sitemap_spider.py: the URL collector\<close>

text \<open>
  The callbacks are generators: they yield requests until the loop ends or an
  exception ends it.  The result is the list of the requests yielded and the
  exception, if there is one.

  \<open>SitemapSpider.parse\<close>: one request per child sitemap location of the index, in
  order, with \<open>parse_sitemap\<close> as callback.  The argument is the list that the
  XPath query returns.
\<close>

fun sitemap_parse :: "(string \<Rightarrow> string option) \<Rightarrow> string list \<Rightarrow> string request list \<times> exn option" where
  "sitemap_parse norm [] = ([], None)"
| "sitemap_parse norm (sitemap_url # sitemap_urls) =
     (case set_url norm (JStr sitemap_url) of
        Inl e \<Rightarrow> ([], Some e)
      | Inr u \<Rightarrow>
          (case sitemap_parse norm sitemap_urls of
             (rs, x) \<Rightarrow> (Request u Parse_sitemap # rs, x)))"

text \<open>
  \<open>parse_sitemap\<close>: the page locations of a child sitemap are taken in order; one
  with \<open>"-p-" in url\<close> gets a request with \<open>parse_url_based_variants\<close> as callback,
  the others are passed over.  Python's \<open>in\<close> on two strings is the
  contiguous-sublist test.  When the constructor of the request raises, the
  generator ends there.
\<close>

fun parse_sitemap :: "(string \<Rightarrow> string option) \<Rightarrow> string list \<Rightarrow> string request list \<times> exn option" where
  "parse_sitemap norm [] = ([], None)"
| "parse_sitemap norm (url # page_urls) =
     (if sublist ''-p-'' url then
        (case set_url norm (JStr url) of
           Inl e \<Rightarrow> ([], Some e)
         | Inr u \<Rightarrow>
             (case parse_sitemap norm page_urls of
                (rs, x) \<Rightarrow> (Request u Parse_url_based_variants # rs, x)))
      else parse_sitemap norm page_urls)"

text \<open>
  A normalisation that changes nothing, as the libraries' one does on a URL that is
  already stripped and has only characters that need no encoding.
\<close>

definition keep_url :: "string \<Rightarrow> string option" where
  "keep_url url = Some url"

text \<open>
  The response to a product page request: its URL, the \<open>href\<close> values that the CSS
  query finds (\<open>None\<close> when running the query raises), and its \<open>urljoin\<close> method.
\<close>

record response =
  response_url :: string
  variant_hrefs :: "string list option"
  urljoin :: "string \<Rightarrow> string"

record sitemap_spider =
  collected_urls :: "string set"

definition init_sitemap_spider :: sitemap_spider where
  "init_sitemap_spider = \<lparr>collected_urls = {}\<rparr>"

text \<open>
  \<open>parse_url_based_variants\<close>: the URL of the response, and the joined variant links
  when the lookup does not raise (a warning is logged when it does), are added
  to the set.
\<close>

definition variant_urls :: "response \<Rightarrow> string list \<times> log_entry list" where
  "variant_urls r =
     (case variant_hrefs r of
        Some hrefs \<Rightarrow> (response_url r # map (urljoin r) hrefs, [])
      | None \<Rightarrow> ([response_url r], [LogWarning ''Error extracting variants from '']))"

definition parse_url_based_variants ::
  "response \<Rightarrow> sitemap_spider \<Rightarrow> log_entry list \<times> sitemap_spider" where
  "parse_url_based_variants r self =
     (case variant_urls r of
        (urls, lg) \<Rightarrow>
          (lg, self\<lparr>collected_urls := fold (\<lambda>url s. insert url s) urls (collected_urls self)\<rparr>))"

text \<open>
  \<open>json.dump(urls, f, ensure_ascii=False, indent=2)\<close> for a list of strings, as
  the standard library writes it: \<open>[]\<close> for the empty list, otherwise one string per
  line, indented by two blanks and separated by commas.  Inside a string the double
  quote, the backslash and the control characters below \<open>0x20\<close> are escaped, every
  other character is written as it is.
\<close>

definition hex_digit :: "nat \<Rightarrow> char" where
  "hex_digit n = (if n < 10 then char_of (48 + n) else char_of (87 + n))"

definition escape_char :: "char \<Rightarrow> string" where
  "escape_char c =
     (if c = CHR 0x22 then [CHR 0x5C, CHR 0x22]
      else if c = CHR 0x5C then [CHR 0x5C, CHR 0x5C]
      else if c = CHR 0x0A then [CHR 0x5C, CHR ''n'']
      else if c = CHR 0x0D then [CHR 0x5C, CHR ''r'']
      else if c = CHR 0x09 then [CHR 0x5C, CHR ''t'']
      else if c = CHR 0x08 then [CHR 0x5C, CHR ''b'']
      else if c = CHR 0x0C then [CHR 0x5C, CHR ''f'']
      else if (of_char c :: nat) < 32
        then [CHR 0x5C, CHR ''u'', CHR ''0'', CHR ''0'',
              hex_digit (of_char c div 16), hex_digit (of_char c mod 16)]
      else [c])"

definition encode_basestring :: "string \<Rightarrow> string" where
  "encode_basestring s = CHR 0x22 # concat (map escape_char s) @ [CHR 0x22]"

definition json_dump :: "string list \<Rightarrow> string" where
  "json_dump urls =
     (if urls = [] then ''[]''
      else ''['' @ [CHR 0x0A] @ ''  ''
           @ py_join ('','' @ [CHR 0x0A] @ ''  '') (map encode_basestring urls)
           @ [CHR 0x0A] @ '']'')"

text \<open>
  The part of the file system that the spiders touch: the directories that exist
  and the text of the files.  Creating the directory and opening the file for
  writing are taken to succeed.
\<close>

record filesystem =
  dirs :: "string set"
  files :: "string \<rightharpoonup> string"

text \<open>
  \<open>closed\<close>: makes the directory \<open>product_data\<close>, writes the sorted URLs as JSON
  to \<open>product_data/product_links.json\<close> and logs how many there are.
\<close>

definition closed :: "sitemap_spider \<Rightarrow> filesystem \<Rightarrow> log_entry list \<times> filesystem" where
  "closed self fs =
     ([LogInfoValue ''Wrote URLs to product_data/product_links.json''
         (int (card (collected_urls self)))],
      fs\<lparr>dirs := insert ''product_data'' (dirs fs),
         files := (files fs)(''product_data/product_links.json'' \<mapsto>
                    json_dump (sorted_list_of_set (collected_urls self)))\<rparr>)"

text \<open>
  A crawl run of the collector: the responses to the product page requests are
  handled one after the other, then \<open>closed\<close> runs.
\<close>

fun collect :: "response list \<Rightarrow> sitemap_spider \<Rightarrow> sitemap_spider" where
  "collect [] self = self"
| "collect (r # rs) self = collect rs (snd (parse_url_based_variants r self))"

definition run_collector :: "response list \<Rightarrow> filesystem \<Rightarrow> filesystem" where
  "run_collector rs fs = snd (closed (collect rs init_sitemap_spider) fs)"

text \<open>The URLs that the responses of a run contribute.\<close>

definition found_urls :: "response list \<Rightarrow> string set" where
  "found_urls rs = (\<Union>r \<in> set rs. set (fst (variant_urls r)))"

text \<open>
  The path of a URL in the sense of the specification (RFC 3986): what stands
  between the authority and the query or fragment.  It is not a function of the
  program; it states the specification's classification rule, to be compared with
  \<open>parse_sitemap\<close>.
\<close>

fun after_scheme :: "string \<Rightarrow> string" where
  "after_scheme [] = []"
| "after_scheme (c # cs) =
     (if c = CHR '':'' \<and> take 2 cs = ''//'' then drop 2 cs else after_scheme cs)"

definition spec_url_path :: "string \<Rightarrow> string" where
  "spec_url_path url =
     takeWhile (\<lambda>c. c \<noteq> CHR ''?'' \<and> c \<noteq> CHR ''#'')
       (dropWhile (\<lambda>c. c \<noteq> CHR ''/'' \<and> c \<noteq> CHR ''?'' \<and> c \<noteq> CHR ''#'') (after_scheme url))"

definition spec_is_product_url :: "string \<Rightarrow> bool" where
  "spec_is_product_url url = sublist ''-p-'' (spec_url_path url)"

section \<open>JSON texts that are arrays of strings\<close>

text \<open>
  A reader for the JSON grammar (RFC 8259), restricted to the texts that are an
  array of strings: white space, \<open>[\<close>, strings separated by commas, \<open>]\<close>, white
  space.  A text is such an array exactly when the reader returns its elements.  It
  is not a function of the program; it says what "a valid JSON array" means for the
  file that \<open>closed\<close> writes.  An escape \<open>\\uXXXX\<close> is read when the code point is
  below 256.  The bound of \<open>read_more\<close> is the length of the text, which is more
  than the number of elements it can hold.
\<close>

definition json_ws :: "char \<Rightarrow> bool" where
  "json_ws c = (c = CHR 0x20 \<or> c = CHR 0x0A \<or> c = CHR 0x0D \<or> c = CHR 0x09)"

definition hex_value :: "char \<Rightarrow> nat option" where
  "hex_value c =
     (let n = (of_char c :: nat) in
      if 48 \<le> n \<and> n \<le> 57 then Some (n - 48)
      else if 97 \<le> n \<and> n \<le> 102 then Some (n - 87)
      else if 65 \<le> n \<and> n \<le> 70 then Some (n - 55)
      else None)"

definition unescape :: "char \<Rightarrow> char option" where
  "unescape e =
     (if e = CHR 0x22 then Some (CHR 0x22)
      else if e = CHR 0x5C then Some (CHR 0x5C)
      else if e = CHR ''/'' then Some (CHR ''/'')
      else if e = CHR ''b'' then Some (CHR 0x08)
      else if e = CHR ''f'' then Some (CHR 0x0C)
      else if e = CHR ''n'' then Some (CHR 0x0A)
      else if e = CHR ''r'' then Some (CHR 0x0D)
      else if e = CHR ''t'' then Some (CHR 0x09)
      else None)"

definition unicode_escape :: "char \<Rightarrow> char \<Rightarrow> char \<Rightarrow> char \<Rightarrow> char option" where
  "unicode_escape a b c d =
     (case (hex_value a, hex_value b, hex_value c, hex_value d) of
        (Some h3, Some h2, Some h1, Some h0) \<Rightarrow>
          (if h3 = 0 \<and> h2 = 0 then Some (char_of (16 * h1 + h0)) else None)
      | _ \<Rightarrow> None)"

definition push :: "'a \<Rightarrow> ('a list \<times> 'b) option \<Rightarrow> ('a list \<times> 'b) option" where
  "push x r = (case r of None \<Rightarrow> None | Some (s, rest) \<Rightarrow> Some (x # s, rest))"

fun read_string :: "string \<Rightarrow> (string \<times> string) option" where
  "read_string [] = None"
| "read_string [c] = (if c = CHR 0x22 then Some ([], []) else None)"
| "read_string (c # e # r) =
     (if c = CHR 0x22 then Some ([], e # r)
      else if c = CHR 0x5C then
        (if e = CHR ''u'' then
           (case r of
              a # b # c' # d # r' \<Rightarrow>
                (case unicode_escape a b c' d of
                   None \<Rightarrow> None
                 | Some x \<Rightarrow> push x (read_string r'))
            | _ \<Rightarrow> None)
         else (case unescape e of None \<Rightarrow> None | Some x \<Rightarrow> push x (read_string r)))
      else if (of_char c :: nat) < 32 then None
      else push c (read_string (e # r)))"

fun read_more :: "nat \<Rightarrow> string \<Rightarrow> string list option" where
  "read_more 0 s = None"
| "read_more (Suc n) [] = None"
| "read_more (Suc n) (c # cs) =
     (if c = CHR '']'' then (if dropWhile json_ws cs = [] then Some [] else None)
      else if c = CHR '','' then
        (case dropWhile json_ws cs of
           [] \<Rightarrow> None
         | q # body \<Rightarrow>
             (if q = CHR 0x22 then
                (case read_string body of
                   None \<Rightarrow> None
                 | Some (x, rest) \<Rightarrow> map_option (Cons x) (read_more n (dropWhile json_ws rest)))
              else None))
      else None)"

definition json_string_array :: "string \<Rightarrow> string list option" where
  "json_string_array s =
     (case dropWhile json_ws s of
        [] \<Rightarrow> None
      | c # cs \<Rightarrow>
          (if c = CHR ''['' then
             (case dropWhile json_ws cs of
                [] \<Rightarrow> None
              | q # body \<Rightarrow>
                  (if q = CHR '']'' then (if dropWhile json_ws body = [] then Some [] else None)
                   else if q = CHR 0x22 then
                     (case read_string body of
                        None \<Rightarrow> None
                      | Some (x, rest) \<Rightarrow>
                          map_option (Cons x) (read_more (length s) (dropWhile json_ws rest)))
                   else None))
           else None))"

section \<open>product_spider.py: reading the URL list\<close>

text \<open>
  \<open>open(path, 'r')\<close>: the text of the file; \<open>IsADirectoryError\<close> for a directory
  and \<open>FileNotFoundError\<close> for a path with nothing at it.
\<close>

definition py_open :: "filesystem \<Rightarrow> string \<Rightarrow> exn + string" where
  "py_open fs path =
     (if path \<in> dirs fs then Inl IsADirectoryError
      else case files fs path of None \<Rightarrow> Inl FileNotFoundError | Some content \<Rightarrow> Inr content)"

text \<open>
  \<open>start_requests\<close> makes the directory \<open>product_data\<close> (taken to succeed), opens
  \<open>product_data/product_links.json\<close> under the project directory and hands the
  file to \<open>json.load\<close>.  \<open>json.load\<close> is library code, the parameter
  \<open>json_load\<close>: for the content of the file it gives the parsed document or the
  exception it raises (\<open>JSONDecodeError\<close> for a text that is not JSON,
  \<open>UnicodeDecodeError\<close> for bytes that are not UTF-8).
\<close>

definition links_path :: "string \<Rightarrow> string" where
  "links_path project_dir = project_dir @ ''/product_data/product_links.json''"

definition load_links :: "(string \<Rightarrow> exn + json) \<Rightarrow> string \<Rightarrow> filesystem \<Rightarrow> exn + json" where
  "load_links json_load project_dir fs =
     (case py_open fs (links_path project_dir) of
        Inl e \<Rightarrow> Inl e
      | Inr content \<Rightarrow> json_load content)"

text \<open>
  The loop \<open>for url in product_urls: yield SeleniumRequest(...)\<close> over the elements
  of the document: the requests yielded, and the exception of the constructor that
  ends the loop, if one does.
\<close>

fun yield_requests ::
  "(string \<Rightarrow> string option) \<Rightarrow> json list \<Rightarrow> string request list \<times> exn option" where
  "yield_requests norm [] = ([], None)"
| "yield_requests norm (url # urls) =
     (case set_url norm url of
        Inl e \<Rightarrow> ([], Some e)
      | Inr u \<Rightarrow>
          (case yield_requests norm urls of
             (rs, x) \<Rightarrow> (SeleniumRequest u Parse Handle_error 5 # rs, x)))"

text \<open>
  The \<open>try\<close> block: open and load, then iterate.  The loop iterates over whatever
  the document is; a document that cannot be iterated raises \<open>TypeError\<close>.
\<close>

definition read_and_yield ::
  "(string \<Rightarrow> string option) \<Rightarrow> (string \<Rightarrow> exn + json) \<Rightarrow> string \<Rightarrow> filesystem \<Rightarrow>
   string request list \<times> exn option" where
  "read_and_yield norm json_load project_dir fs =
     (case load_links json_load project_dir fs of
        Inl e \<Rightarrow> ([], Some e)
      | Inr product_urls \<Rightarrow>
          (case py_iter product_urls of
             Inl e \<Rightarrow> ([], Some e)
           | Inr urls \<Rightarrow> yield_requests norm urls))"

text \<open>
  The two \<open>except\<close> clauses: \<open>FileNotFoundError\<close> and \<open>json.JSONDecodeError\<close> are
  logged as errors; any other exception is not caught and leaves the generator.
  The result of \<open>start_requests\<close>: the requests yielded, the lines logged, the
  exception that leaves, and the directories after \<open>os.makedirs\<close>.
\<close>

record start_result =
  requests :: "string request list"
  start_log :: "log_entry list"
  uncaught :: "exn option"
  made_dirs :: "string set"

definition start_requests ::
  "(string \<Rightarrow> string option) \<Rightarrow> (string \<Rightarrow> exn + json) \<Rightarrow> string \<Rightarrow> filesystem \<Rightarrow>
   start_result" where
  "start_requests norm json_load project_dir fs =
     (case read_and_yield norm json_load project_dir fs of
        (rs, None) \<Rightarrow>
          \<lparr>requests = rs, start_log = [], uncaught = None,
           made_dirs = insert ''product_data'' (dirs fs)\<rparr>
      | (rs, Some e) \<Rightarrow>
          (if e = FileNotFoundError then
             \<lparr>requests = rs, start_log = [LogError ''JSON file not found: ''],
              uncaught = None, made_dirs = insert ''product_data'' (dirs fs)\<rparr>
           else if e = JSONDecodeError then
             \<lparr>requests = rs, start_log = [LogError ''Failed to parse JSON file: ''],
              uncaught = None, made_dirs = insert ''product_data'' (dirs fs)\<rparr>
           else
             \<lparr>requests = rs, start_log = [], uncaught = Some e,
              made_dirs = insert ''product_data'' (dirs fs)\<rparr>))"

text \<open>
  A URL list file that holds the JSON text \<open>null\<close>, and a \<open>json.load\<close> that reads
  this text as \<open>None\<close> (as the library does) and refuses any other.
\<close>

definition null_file :: filesystem where
  "null_file = \<lparr>dirs = {}, files = [links_path ''project'' \<mapsto> ''null'']\<rparr>"

definition load_null :: "string \<Rightarrow> exn + json" where
  "load_null content = (if content = ''null'' then Inr JNull else Inl JSONDecodeError)"

text \<open>
  A URL list file with two product URLs, as the collector writes it, and a
  \<open>json.load\<close> that reads arrays of strings.
\<close>

definition two_links :: "string list" where
  "two_links = [''https://x/a-p-1'', ''https://x/c-p-2'']"

definition two_links_file :: filesystem where
  "two_links_file = \<lparr>dirs = {}, files = [links_path ''project'' \<mapsto> json_dump two_links]\<rparr>"

definition load_string_array :: "string \<Rightarrow> exn + json" where
  "load_string_array content =
     (case json_string_array content of
        None \<Rightarrow> Inl JSONDecodeError
      | Some urls \<Rightarrow> Inr (JArr (map JStr urls)))"
section \<open>loaders.py: the item loader\<close>

text \<open>
  \<open>ProductLoader\<close> only configures \<open>ItemLoader\<close> of the \<open>itemloaders\<close> library;
  what follows is the library's \<open>add_value\<close> and \<open>load_item\<close> under that
  configuration.  The loader collects, per field, a list of values
  (\<open>_values\<close>, the empty list for a field without entry).
\<close>

type_synonym loader = "field \<Rightarrow> json list"

definition new_loader :: loader where
  "new_loader = (\<lambda>f. [])"

text \<open>
  A step that works on the loader: it returns a value or raises, and leaves the
  loader as it is at that moment, so that a handler sees what was added before the
  exception.
\<close>

type_synonym 'a loading = "loader \<Rightarrow> (exn + 'a) \<times> loader"

definition returning :: "exn + 'a \<Rightarrow> 'a loading" where
  "returning r = (\<lambda>ld. (r, ld))"

definition and_then :: "'a loading \<Rightarrow> ('a \<Rightarrow> 'b loading) \<Rightarrow> 'b loading" where
  "and_then m k =
     (\<lambda>ld. case m ld of (Inl e, ld') \<Rightarrow> (Inl e, ld') | (Inr x, ld') \<Rightarrow> k x ld')"

text \<open>
  \<open>arg_to_iter\<close>: \<open>None\<close> becomes the empty list, a list stays, any other value
  (a dict and a \<open>str\<close> too) becomes a one-element list.
\<close>

fun arg_to_iter :: "json \<Rightarrow> json list" where
  "arg_to_iter JNull = []"
| "arg_to_iter (JArr xs) = xs"
| "arg_to_iter v = [v]"

text \<open>The input processors that loaders.py declares, field by field.\<close>

datatype processor = Identity | MapCompose_strip

fun input_processor :: "field \<Rightarrow> processor" where
  "input_processor Name = MapCompose_strip"
| "input_processor Url = MapCompose_strip"
| "input_processor Sku = Identity"
| "input_processor ProductID = Identity"
| "input_processor Image = MapCompose_strip"
| "input_processor Price = Identity"
| "input_processor Description = Identity"
| "input_processor Main_category = MapCompose_strip"
| "input_processor Sub_categories = MapCompose_strip"
| "input_processor Variant_name = MapCompose_strip"

text \<open>
  \<open>str.strip(v)\<close> raises \<open>TypeError\<close> when \<open>v\<close> is not a \<open>str\<close>.
  \<open>MapCompose(str.strip)\<close> applies it to every value and turns any exception into
  \<open>ValueError\<close>; the loader wraps an exception of an input processor in
  \<open>ValueError\<close> again.
\<close>

fun str_strip :: "json \<Rightarrow> exn + json" where
  "str_strip (JStr s) = Inr (JStr (py_strip s))"
| "str_strip v = Inl TypeError"

fun map_compose_strip :: "json list \<Rightarrow> exn + json list" where
  "map_compose_strip [] = Inr []"
| "map_compose_strip (v # vs) =
     (case str_strip v of
        Inl e \<Rightarrow> Inl ValueError
      | Inr w \<Rightarrow>
          (case map_compose_strip vs of
             Inl e \<Rightarrow> Inl e
           | Inr ws \<Rightarrow> Inr (arg_to_iter w @ ws)))"

definition process_input_value :: "field \<Rightarrow> json list \<Rightarrow> exn + json list" where
  "process_input_value f vs =
     (case input_processor f of
        Identity \<Rightarrow> Inr vs
      | MapCompose_strip \<Rightarrow>
          (case map_compose_strip vs of Inl e \<Rightarrow> Inl ValueError | Inr ws \<Rightarrow> Inr ws))"

text \<open>
  \<open>add_value\<close>: the processed values are appended to the field's list, unless
  there are none.
\<close>

definition add_value :: "field \<Rightarrow> json \<Rightarrow> unit loading" where
  "add_value f v =
     (\<lambda>ld. case process_input_value f (arg_to_iter v) of
             Inl e \<Rightarrow> (Inl e, ld)
           | Inr processed_value \<Rightarrow>
               (Inr (), if processed_value \<noteq> [] then ld(f := ld f @ processed_value) else ld))"

text \<open>
  \<open>default_output_processor = TakeFirst()\<close>, and no field overrides it:
  \<open>TakeFirst\<close> returns the first value that is neither \<open>None\<close> nor the empty
  string, \<open>None\<close> when there is no such value.  \<open>load_item\<close> sets a field when
  its output value is not \<open>None\<close>.
\<close>

fun take_first :: "json list \<Rightarrow> json option" where
  "take_first [] = None"
| "take_first (v # vs) = (if v \<noteq> JNull \<and> v \<noteq> JStr [] then Some v else take_first vs)"

definition load_item :: "loader \<Rightarrow> json item" where
  "load_item ld = (\<lambda>f. take_first (ld f))"

section \<open>product_spider.py: the product extractor\<close>

text \<open>
  The browser session is outside the program.  A page is described by what the
  driver answers.  The clicks made so far, each a pair of a feature index and an
  option index, are the state of the session; the embedded scripts may depend on
  them.

  A script element is \<open>Absent\<close> when the wait for it times out
  (\<open>TimeoutException\<close>), \<open>Blank\<close> when its \<open>innerHTML\<close> is \<open>None\<close> or empty,
  \<open>Undecodable\<close> when \<open>json.loads\<close> raises \<open>JSONDecodeError\<close> on it, and
  otherwise holds the parsed document.
\<close>

datatype script = Absent | Blank | Undecodable | Document json

type_synonym clicks = "(nat \<times> nat) list"

text \<open>
  A feature group of the variant region, as found once before the enumeration: the
  number of its option elements, and the text of its caption (\<open>None\<close> when the
  caption element is not found, \<open>NoSuchElementException\<close>).
\<close>

record feature_element =
  option_count :: nat
  caption :: "string option"

text \<open>
  \<open>variant_block\<close> is \<open>None\<close> when the wait for the variant region times out.
  \<open>click_performs h (i, j)\<close> tells whether moving to option \<open>j\<close> of feature \<open>i\<close>
  and clicking it succeeds after the clicks \<open>h\<close> (else the driver raises);
  \<open>relative_text h (i, j)\<close> is the text of the label element inside that option
  after the clicks \<open>h\<close> (\<open>None\<close> when it is not found).
\<close>

record page =
  product_script :: "clicks \<Rightarrow> script"
  breadcrumb_script :: "clicks \<Rightarrow> script"
  variant_block :: "feature_element list option"
  click_performs :: "clicks \<Rightarrow> nat \<times> nat \<Rightarrow> bool"
  relative_text :: "clicks \<Rightarrow> nat \<times> nat \<Rightarrow> string option"

subsection \<open>parse_product_data\<close>

definition add_from :: "json \<Rightarrow> string \<Rightarrow> field \<Rightarrow> unit loading" where
  "add_from data key f = and_then (returning (py_get data key)) (add_value f)"

text \<open>The seven \<open>add_value\<close> calls on the product document, in order.\<close>

definition load_product :: "json \<Rightarrow> unit loading" where
  "load_product data =
     and_then (add_from data ''name'' Name) (\<lambda>_.
     and_then (add_from data ''url'' Url) (\<lambda>_.
     and_then (add_from data ''sku'' Sku) (\<lambda>_.
     and_then (add_from data ''productID'' ProductID) (\<lambda>_.
     and_then (add_from data ''image'' Image) (\<lambda>_.
     and_then (returning (py_get_default data ''offers'' (JObj []))) (\<lambda>offers.
     and_then (returning (py_get offers ''price'')) (\<lambda>price.
     and_then (add_value Price price) (\<lambda>_.
     add_from data ''description'' Description))))))))"

text \<open>
  The first \<open>try\<close> block.  Only \<open>json.JSONDecodeError\<close> is caught; the timeout of
  the wait and every other exception leave the function.  The result is the
  exception that leaves, if any, the loader and the lines logged.
\<close>

definition product_part :: "script \<Rightarrow> loader \<Rightarrow> exn option \<times> loader \<times> log_entry list" where
  "product_part sc ld =
     (case sc of
        Absent \<Rightarrow> (Some TimeoutException, ld, [])
      | Blank \<Rightarrow> (None, ld, [])
      | Undecodable \<Rightarrow>
          (None, ld, [LogWarning ''Failed to decode product structured data at ''])
      | Document data \<Rightarrow>
          (case load_product data ld of
             (Inr u, ld') \<Rightarrow> (None, ld', [])
           | (Inl e, ld') \<Rightarrow>
               (if e = JSONDecodeError
                then (None, ld', [LogWarning ''Failed to decode product structured data at ''])
                else (Some e, ld', []))))"

text \<open>
  The list comprehension \<open>[b.get("name") for b in breadcrumbs[2:-1] if b.get("name")]\<close>.
\<close>

fun sub_cat_names :: "json list \<Rightarrow> exn + json list" where
  "sub_cat_names [] = Inr []"
| "sub_cat_names (b # bs) =
     (case py_get b ''name'' of
        Inl e \<Rightarrow> Inl e
      | Inr nm \<Rightarrow>
          (case sub_cat_names bs of
             Inl e \<Rightarrow> Inl e
           | Inr names \<Rightarrow> Inr (if truthy nm then nm # names else names)))"

definition main_category_of :: "json \<Rightarrow> unit loading" where
  "main_category_of breadcrumbs =
     and_then (returning (py_index breadcrumbs 1)) (\<lambda>b1.
     and_then (returning (py_get b1 ''name'')) (\<lambda>nm.
     add_value Main_category nm))"

definition load_breadcrumbs :: "json \<Rightarrow> unit loading" where
  "load_breadcrumbs breadcrumb_data =
     and_then (returning (py_get_default breadcrumb_data ''itemListElement'' (JArr []))) (\<lambda>breadcrumbs.
     and_then (returning (py_len breadcrumbs)) (\<lambda>n.
       if n \<ge> 3 then
         and_then (main_category_of breadcrumbs) (\<lambda>_.
         and_then (returning (py_slice_2_to_last breadcrumbs)) (\<lambda>bs.
         and_then (returning (sub_cat_names bs)) (\<lambda>sub_cats.
         add_value Sub_categories (JArr sub_cats))))
       else if n = 2 then main_category_of breadcrumbs
       else returning (Inr ())))"

text \<open>
  The second \<open>try\<close> block: \<open>JSONDecodeError\<close>, \<open>TypeError\<close> and \<open>KeyError\<close> are
  caught and logged, the timeout of the wait and the other exceptions leave the
  function.
\<close>

definition breadcrumb_part :: "script \<Rightarrow> loader \<Rightarrow> exn option \<times> loader \<times> log_entry list" where
  "breadcrumb_part sc ld =
     (case sc of
        Absent \<Rightarrow> (Some TimeoutException, ld, [])
      | Blank \<Rightarrow> (None, ld, [])
      | Undecodable \<Rightarrow> (None, ld, [LogWarning ''Breadcrumb parsing error on ''])
      | Document breadcrumb_data \<Rightarrow>
          (case load_breadcrumbs breadcrumb_data ld of
             (Inr u, ld') \<Rightarrow> (None, ld', [])
           | (Inl e, ld') \<Rightarrow>
               (if e = JSONDecodeError \<or> e = TypeError \<or> e = KeyError
                then (None, ld', [LogWarning ''Breadcrumb parsing error on ''])
                else (Some e, ld', []))))"

text \<open>
  \<open>parse_product_data\<close> is a generator function with one \<open>yield\<close>.  This is what
  \<open>next(self.parse_product_data(driver))\<close> gives after the clicks \<open>h\<close>: the
  item, or the exception that leaves the body, and the lines logged.
\<close>

definition parse_product_data :: "page \<Rightarrow> clicks \<Rightarrow> (exn + json item) \<times> log_entry list" where
  "parse_product_data pg h =
     (case product_part (product_script pg h) new_loader of
        (Some e, ld, lg) \<Rightarrow> (Inl e, lg)
      | (None, ld, lg) \<Rightarrow>
          (case breadcrumb_part (breadcrumb_script pg h) ld of
             (Some e, ld', lg') \<Rightarrow> (Inl e, lg @ lg')
           | (None, ld', lg') \<Rightarrow> (Inr (load_item ld'), lg @ lg')))"

subsection \<open>parse_product_variants\<close>

text \<open>
  \<open>re.findall('([\\w\\s]+):', text)\<close>: every maximal run of word and white space
  characters that a colon follows, from left to right.  A character is read as a
  code point below 256: \<open>\\w\<close> holds for the alphanumeric ones and the underscore,
  \<open>\\s\<close> for the ones of \<open>py_isspace\<close>.  \<open>findall_runs\<close> carries the current run,
  reversed.
\<close>

definition py_isword :: "char \<Rightarrow> bool" where
  "py_isword c =
     (let n = (of_char c :: nat) in
      (48 \<le> n \<and> n \<le> 57) \<or> (65 \<le> n \<and> n \<le> 90) \<or> (97 \<le> n \<and> n \<le> 122) \<or> n = 95 \<or>
      n \<in> {170, 178, 179, 181, 185, 186, 188, 189, 190} \<or>
      (192 \<le> n \<and> n \<le> 214) \<or> (216 \<le> n \<and> n \<le> 246) \<or> (248 \<le> n \<and> n \<le> 255))"

fun findall_runs :: "string \<Rightarrow> string \<Rightarrow> string list" where
  "findall_runs run [] = []"
| "findall_runs run (c # cs) =
     (if py_isword c \<or> py_isspace c then findall_runs (c # run) cs
      else if c = CHR '':'' \<and> run \<noteq> [] then rev run # findall_runs [] cs
      else findall_runs [] cs)"

definition feature_name :: "string \<Rightarrow> string" where
  "feature_name text = py_join '' '' (findall_runs [] text)"

text \<open>
  The first loop: per feature the number of options and the name from the caption.
  A caption that is not found ends the loop with the exception.
\<close>

fun gather_features :: "feature_element list \<Rightarrow> exn + (nat list \<times> string list)" where
  "gather_features [] = Inr ([], [])"
| "gather_features (feature # features) =
     (case caption feature of
        None \<Rightarrow> Inl NoSuchElementException
      | Some text \<Rightarrow>
          (case gather_features features of
             Inl e \<Rightarrow> Inl e
           | Inr (num_variants, variant_names) \<Rightarrow>
               Inr (option_count feature # num_variants, feature_name text # variant_names)))"

text \<open>
  The inner loop over one combination, from feature \<open>i\<close> on: click the option,
  read its label, build the part \<open>name: label\<close>.  The names are walked along with
  the combination (\<open>variant_names[i]\<close>); both have one entry per feature.
\<close>

fun click_options ::
  "page \<Rightarrow> nat \<Rightarrow> string list \<Rightarrow> nat list \<Rightarrow> clicks \<Rightarrow> exn + (string list \<times> clicks)" where
  "click_options pg i names [] h = Inr ([], h)"
| "click_options pg i [] (c # cs) h = Inl IndexError"
| "click_options pg i (name # names) (c # cs) h =
     (if \<not> click_performs pg h (i, c) then Inl WebDriverException
      else
        (case relative_text pg (h @ [(i, c)]) (i, c) of
           None \<Rightarrow> Inl NoSuchElementException
         | Some chosen_feature_info \<Rightarrow>
             (case click_options pg (Suc i) names cs (h @ [(i, c)]) of
                Inl e \<Rightarrow> Inl e
              | Inr (parts, h') \<Rightarrow> Inr ((name @ '': '' @ chosen_feature_info) # parts, h'))))"

text \<open>
  \<open>for key, value in item.items(): loader.add_value(key, value)\<close>, over the fields
  that the item has, in the order in which they were set.
\<close>

definition item_fields :: "field list" where
  "item_fields = [Name, Url, Sku, ProductID, Image, Price, Description,
                  Main_category, Sub_categories, Variant_name]"

fun add_item_values :: "field list \<Rightarrow> json item \<Rightarrow> unit loading" where
  "add_item_values [] item = returning (Inr ())"
| "add_item_values (f # fs) item =
     (case item f of
        None \<Rightarrow> add_item_values fs item
      | Some v \<Rightarrow> and_then (add_value f v) (\<lambda>_. add_item_values fs item))"

definition variant_item :: "json item \<Rightarrow> string \<Rightarrow> exn + json item" where
  "variant_item item variant_name =
     (case and_then (add_item_values item_fields item)
             (\<lambda>_. add_value Variant_name (JStr variant_name)) new_loader of
        (Inl e, ld) \<Rightarrow> Inl e
      | (Inr u, ld) \<Rightarrow> Inr (load_item ld))"

text \<open>
  The loop over the combinations: the items yielded so far, the lines logged and
  the exception that ends the loop, if one does.  What was yielded before an
  exception stays yielded.
\<close>

fun emit_variants ::
  "page \<Rightarrow> string list \<Rightarrow> nat list list \<Rightarrow> clicks \<Rightarrow>
   json item list \<times> log_entry list \<times> exn option" where
  "emit_variants pg names [] h = ([], [], None)"
| "emit_variants pg names (combination # rest) h =
     (case click_options pg 0 names combination h of
        Inl e \<Rightarrow> ([], [], Some e)
      | Inr (variant_parts, h') \<Rightarrow>
          (case parse_product_data pg h' of
             (Inl e, lg) \<Rightarrow> ([], lg, Some e)
           | (Inr item, lg) \<Rightarrow>
               (case variant_item item (py_join '' | '' variant_parts) of
                  Inl e \<Rightarrow> ([], lg, Some e)
                | Inr v \<Rightarrow>
                    (case emit_variants pg names rest h' of
                       (items, lg', r) \<Rightarrow> (v # items, lg @ lg', r)))))"

text \<open>
  The body of the \<open>try\<close> statement of \<open>parse_product_variants\<close>: the wait for
  the variant region, the first loop, the combinations and the loop over them.
  \<open>itertools.product\<close> of the index ranges is \<open>product_lists\<close>: the last index
  runs fastest.  The result is what was yielded and logged, and the exception
  that ends the body, if one does.
\<close>

definition variants_body :: "page \<Rightarrow> json item list \<times> log_entry list \<times> exn option" where
  "variants_body pg =
     (case variant_block pg of
        None \<Rightarrow> ([], [], Some TimeoutException)
      | Some features \<Rightarrow>
          (case gather_features features of
             Inl e \<Rightarrow> ([], [], Some e)
           | Inr (num_variants, variant_names) \<Rightarrow>
               emit_variants pg variant_names
                 (product_lists (map (\<lambda>i. [0..<i]) num_variants)) []))"

text \<open>
  \<open>parse_product_variants\<close> catches every exception of its body and logs a
  warning.
\<close>

definition parse_product_variants :: "page \<Rightarrow> json item list \<times> log_entry list" where
  "parse_product_variants pg =
     (case variants_body pg of
        (items, lg, None) \<Rightarrow> (items, lg)
      | (items, lg, Some e) \<Rightarrow> (items, lg @ [LogWarning ''Product parsing error on '']))"

subsection \<open>parse\<close>

text \<open>
  What \<open>parse\<close> yields for a page.  Its first \<open>yield\<close> hands on the value of the
  call \<open>self.parse_product_data(driver)\<close>; \<open>parse_product_data\<close> is a generator
  function, so this value is a generator object whose body has not run, not an
  item.  Then the items of \<open>parse_product_variants\<close> follow.  That function lets
  no exception out, so the handler in \<open>parse\<close> never runs.
\<close>

datatype yielded = Generator_object | Product_item "json item"

definition parse :: "page \<Rightarrow> yielded list \<times> log_entry list" where
  "parse pg =
     (case parse_product_variants pg of
        (items, lg) \<Rightarrow> (Generator_object # map Product_item items, lg))"

text \<open>The product records among the values that \<open>parse\<close> yields, in order.\<close>

fun records :: "yielded list \<Rightarrow> json item list" where
  "records [] = []"
| "records (Generator_object # ys) = records ys"
| "records (Product_item item # ys) = item # records ys"

section \<open>Example pages\<close>

text \<open>
  A product page with a structured-data block, a breadcrumb trail of five entries
  (home, main category, two sub-categories, the product) and no variant region.
\<close>

definition crumb :: "string \<Rightarrow> json" where
  "crumb n = JObj [(''@type'', JStr ''ListItem''), (''name'', JStr n)]"

definition lamp_product :: json where
  "lamp_product =
     JObj [(''name'', JStr ''Lamp X''), (''url'', JStr ''https://x/lamp-p-1''),
           (''sku'', JStr ''SKU1''), (''offers'', JObj [(''price'', JNum 120000)])]"

definition lamp_trail :: json where
  "lamp_trail =
     JObj [(''itemListElement'',
            JArr [crumb ''Home'', crumb ''Lighting'', crumb ''LED'', crumb ''Ceiling'',
                  crumb ''Lamp X''])]"

definition lamp_page :: page where
  "lamp_page =
     \<lparr>product_script = (\<lambda>h. Document lamp_product),
      breadcrumb_script = (\<lambda>h. Document lamp_trail),
      variant_block = None,
      click_performs = (\<lambda>h p. True),
      relative_text = (\<lambda>h p. None)\<rparr>"

text \<open>
  The same page with a variant region of one feature group, \<open>Color\<close>, whose two
  options both show the label \<open>Red\<close>.
\<close>

definition two_red_page :: page where
  "two_red_page =
     lamp_page\<lparr>variant_block := Some [\<lparr>option_count = 2, caption = Some ''Color:''\<rparr>],
               relative_text := (\<lambda>h p. Some ''Red'')\<rparr>"

text \<open>
  The same page with a feature group \<open>Color\<close> of two options, \<open>Red\<close> and
  \<open>Blue\<close>, where the click on the second option fails.
\<close>

definition stuck_page :: page where
  "stuck_page =
     lamp_page\<lparr>variant_block := Some [\<lparr>option_count = 2, caption = Some ''Color:''\<rparr>],
               click_performs := (\<lambda>h p. snd p = 0),
               relative_text := (\<lambda>h p. Some (if snd p = 0 then ''Red'' else ''Blue''))\<rparr>"

text \<open>
  A page with two feature groups, \<open>Color\<close> (\<open>Red\<close>, \<open>Blue\<close>) and \<open>Size\<close>
  (\<open>S\<close>, \<open>M\<close>, \<open>L\<close>), on which every step succeeds.
\<close>

definition option_label :: "nat \<Rightarrow> nat \<Rightarrow> string" where
  "option_label i j = (if i = 0 then [''Red'', ''Blue''] ! j else [''S'', ''M'', ''L''] ! j)"

definition shirt_page :: page where
  "shirt_page =
     lamp_page\<lparr>variant_block := Some [\<lparr>option_count = 2, caption = Some ''Color:''\<rparr>,
                                      \<lparr>option_count = 3, caption = Some ''Size:''\<rparr>],
               relative_text := (\<lambda>h p. Some (option_label (fst p) (snd p)))\<rparr>"


text \<open>
  A page whose structured data gives the sku as an object, as in
  \<open>"sku": {"id": 7}\<close>.
\<close>

definition kit_product :: json where
  "kit_product = JObj [(''name'', JStr ''Kit''), (''sku'', JObj [(''id'', JNum 7)])]"

definition kit_page :: page where
  "kit_page = lamp_page\<lparr>product_script := (\<lambda>h. Document kit_product)\<rparr>"

text \<open>
  The page with two feature groups on which the structured data appears only after
  the first click.
\<close>

definition lazy_page :: page where
  "lazy_page =
     shirt_page\<lparr>product_script := (\<lambda>h. if h = [] then Absent else Document lamp_product)\<rparr>"
section \<open>Predicates used in the proofs\<close>

text \<open>
  \<open>string_valued ld\<close>: the fields with the input processor
  \<open>MapCompose(str.strip)\<close> hold strings only, and nothing was added for
  \<open>variant_name\<close>.  \<open>keeps P m\<close>: the loading step \<open>m\<close> preserves \<open>P\<close>, whether it
  returns or raises.
\<close>

definition string_valued :: "loader \<Rightarrow> bool" where
  "string_valued ld =
     ((\<forall>f. input_processor f = MapCompose_strip \<longrightarrow> (\<forall>v \<in> set (ld f). \<exists>s. v = JStr s)) \<and>
      ld Variant_name = [])"

definition keeps :: "(loader \<Rightarrow> bool) \<Rightarrow> 'a loading \<Rightarrow> bool" where
  "keeps P m = (\<forall>ld. P ld \<longrightarrow> P (snd (m ld)))"

text \<open>
  \<open>base_item item\<close>: what \<open>string_valued\<close> means for the loaded item.
\<close>

definition base_item :: "json item \<Rightarrow> bool" where
  "base_item item =
     ((\<forall>f. input_processor f = MapCompose_strip \<longrightarrow>
            item f = None \<or> (\<exists>s. item f = Some (JStr s))) \<and>
      item Variant_name = None)"

text \<open>The \<open>variant_name\<close> values of a list of items, in order.\<close>

definition variant_names_of :: "json item list \<Rightarrow> json option list" where
  "variant_names_of items = map (\<lambda>item. item Variant_name) items"

text \<open>
  The parts \<open>name: label\<close> of a combination, from feature \<open>i\<close> on, when option
  \<open>j\<close> of feature \<open>i\<close> shows the label \<open>label i j\<close>.
\<close>

fun expected_parts :: "(nat \<Rightarrow> nat \<Rightarrow> string) \<Rightarrow> nat \<Rightarrow> string list \<Rightarrow> nat list \<Rightarrow> string list" where
  "expected_parts label i (name # names) (c # cs) =
     (name @ '': '' @ label i c) # expected_parts label (Suc i) names cs"
| "expected_parts label i names cs = []"

text \<open>
  A combination is in range for the option counts \<open>ks\<close> when it has one index per
  feature, each below the number of options of its feature.
\<close>

definition in_range :: "nat list \<Rightarrow> nat list \<Rightarrow> bool" where
  "in_range ks comb = (length comb = length ks \<and> (\<forall>m < length comb. comb ! m < ks ! m))"

text \<open>The \<open>variant_name\<close> that the loader stores for a joined name.\<close>

definition stored_name :: "string \<Rightarrow> json option" where
  "stored_name s = (if py_strip s = [] then None else Some (JStr (py_strip s)))"


text \<open>
  The clicks that the enumeration makes when no step raises, in order: for every
  combination, from feature \<open>i\<close> on, the pair of the feature index and the option
  index.
\<close>

fun clicks_from :: "nat \<Rightarrow> nat list \<Rightarrow> clicks" where
  "clicks_from i [] = []"
| "clicks_from i (c # cs) = (i, c) # clicks_from (Suc i) cs"

definition enumeration_clicks :: "feature_element list \<Rightarrow> clicks" where
  "enumeration_clicks features =
     concat (map (clicks_from 0) (product_lists (map (\<lambda>k. [0..<k]) (map option_count features))))"
section \<open>Properties of the product extractor\<close>

lemmas loader_defs = parse_product_data_def product_part_def breadcrumb_part_def load_product_def
  load_breadcrumbs_def main_category_of_def add_from_def and_then_def returning_def add_value_def
  process_input_value_def py_get_def new_loader_def load_item_def py_strip_def py_isspace_def

section \<open>Properties of the pipeline\<close>

lemma set_key_error: "set_key v = Inl e \<Longrightarrow> e = TypeError"
  by (cases v) auto

lemma sku_key_error: "sku_key item = Inl e \<Longrightarrow> e = TypeError"
  by (auto simp: sku_key_def dest: set_key_error)

lemma process_item_unhashable:
  "sku_key item = Inl e \<Longrightarrow> process_item item self = (Inl TypeError, self)"
  using sku_key_error[of item e] by (simp add: process_item_def sku_key_def)

lemma process_item_new:
  "sku_key item = Inr k \<Longrightarrow> k \<notin> seen_skus self \<Longrightarrow>
   process_item item self =
     (Inr item, self\<lparr>seen_skus := insert k (seen_skus self),
                     stats := (stats self)\<lparr>processed := processed (stats self) + 1\<rparr>\<rparr>)"
  by (simp add: process_item_def sku_key_def)

lemma process_item_dup:
  "sku_key item = Inr k \<Longrightarrow> k \<in> seen_skus self \<Longrightarrow>
   process_item item self =
     (Inl DropItem, self\<lparr>stats := (stats self)\<lparr>dropped := dropped (stats self) + 1\<rparr>\<rparr>)"
  by (simp add: process_item_def sku_key_def)

lemma process_item_cases:
  obtains (unhashable) e where "sku_key item = Inl e" "process_item item self = (Inl TypeError, self)"
  | (dup) k where "sku_key item = Inr k" "k \<in> seen_skus self"
      "process_item item self =
         (Inl DropItem, self\<lparr>stats := (stats self)\<lparr>dropped := dropped (stats self) + 1\<rparr>\<rparr>)"
  | (new) k where "sku_key item = Inr k" "k \<notin> seen_skus self"
      "process_item item self =
         (Inr item, self\<lparr>seen_skus := insert k (seen_skus self),
                         stats := (stats self)\<lparr>processed := processed (stats self) + 1\<rparr>\<rparr>)"
proof (cases "sku_key item")
  case (Inl e)
  then show ?thesis using process_item_unhashable unhashable by blast
next
  case (Inr k)
  then show ?thesis using process_item_dup process_item_new dup new by (cases "k \<in> seen_skus self") blast+
qed

lemma process_item_seen:
  "process_item a self = (r, s) \<Longrightarrow>
   seen_skus s = seen_skus self \<union> {k. sku_key a = Inr k}"
  by (cases a self rule: process_item_cases) auto

lemma process_items_Cons:
  assumes "process_items (a # items) self = (rs, final)"
  obtains r s rs' where "process_item a self = (r, s)"
    and "process_items items s = (rs', final)" and "rs = r # rs'"
  using assms by (auto split: prod.splits)

lemma process_items_length:
  "process_items items self = (rs, final) \<Longrightarrow> length rs = length items"
proof (induction items arbitrary: self rs)
  case Nil
  then show ?case by simp
next
  case (Cons a items)
  from Cons.prems obtain r s rs' where "process_items items s = (rs', final)" "rs = r # rs'"
    by (rule process_items_Cons)
  with Cons.IH show ?case by simp
qed

lemma process_items_seen:
  "process_items items self = (rs, final) \<Longrightarrow>
   seen_skus final = seen_skus self \<union> {k. \<exists>a \<in> set items. sku_key a = Inr k}"
proof (induction items arbitrary: self rs)
  case Nil
  then show ?case by simp
next
  case (Cons a items)
  from Cons.prems obtain r s rs' where st: "process_item a self = (r, s)"
    and rest: "process_items items s = (rs', final)"
    by (rule process_items_Cons)
  from Cons.IH[OF rest] process_item_seen[OF st] show ?case by auto
qed

lemma process_items_nth:
  "process_items items self = (rs, final) \<Longrightarrow> i < length items \<Longrightarrow>
   rs ! i =
     (case sku_key (items ! i) of
        Inl e \<Rightarrow> Inl TypeError
      | Inr k \<Rightarrow>
          if k \<in> seen_skus self \<or> (\<exists>a \<in> set (take i items). sku_key a = Inr k)
          then Inl DropItem else Inr (items ! i))"
proof (induction items arbitrary: self rs i)
  case Nil
  then show ?case by simp
next
  case (Cons a items)
  from Cons.prems(1) obtain r s rs' where st: "process_item a self = (r, s)"
    and rest: "process_items items s = (rs', final)" and eq: "rs = r # rs'"
    by (rule process_items_Cons)
  show ?case
  proof (cases i)
    case 0
    then show ?thesis using st eq
      by (cases a self rule: process_item_cases) auto
  next
    case (Suc k)
    with Cons.prems have k: "k < length items" by simp
    have "\<And>x. (x \<in> seen_skus s \<or> (\<exists>b \<in> set (take k items). sku_key b = Inr x)) =
          (x \<in> seen_skus self \<or> (\<exists>b \<in> set (take (Suc k) (a # items)). sku_key b = Inr x))"
      using process_item_seen[OF st] by auto
    then show ?thesis using Cons.IH[OF rest k] Suc eq
      by (simp split: sum.splits)
  qed
qed

lemma process_items_counters:
  "process_items items self = (rs, final) \<Longrightarrow>
   processed (stats final) = processed (stats self) + int (length (returned rs)) \<and>
   dropped (stats final) =
     dropped (stats self) + int (length (filter (\<lambda>e. e = DropItem) (raised rs))) \<and>
   errors (stats final) = errors (stats self)"
proof (induction items arbitrary: self rs)
  case Nil
  then show ?case by simp
next
  case (Cons a items)
  from Cons.prems(1) obtain r s rs' where st: "process_item a self = (r, s)"
    and rest: "process_items items s = (rs', final)" and eq: "rs = r # rs'"
    by (rule process_items_Cons)
  from Cons.IH[OF rest] st eq show ?case
    by (cases a self rule: process_item_cases) auto
qed

lemma process_items_distinct:
  "process_items items self = (rs, final) \<Longrightarrow>
   distinct (map sku_key (returned rs)) \<and>
   (\<forall>a \<in> set (returned rs). \<exists>k. sku_key a = Inr k \<and> k \<notin> seen_skus self)"
proof (induction items arbitrary: self rs)
  case Nil
  then show ?case by simp
next
  case (Cons a items)
  from Cons.prems(1) obtain r s rs' where st: "process_item a self = (r, s)"
    and rest: "process_items items s = (rs', final)" and eq: "rs = r # rs'"
    by (rule process_items_Cons)
  from Cons.IH[OF rest] have
    d: "distinct (map sku_key (returned rs'))"
    and i: "\<forall>b \<in> set (returned rs'). \<exists>k. sku_key b = Inr k \<and> k \<notin> seen_skus s"
    by simp_all
  show ?case
  proof (cases a self rule: process_item_cases)
    case (unhashable e)
    with st eq have "returned rs = returned rs'" "s = self" by auto
    with d i show ?thesis by simp
  next
    case (dup k)
    with st eq have "returned rs = returned rs'" "seen_skus s = seen_skus self" by auto
    with d i show ?thesis by simp
  next
    case (new k)
    with st eq have r: "returned rs = a # returned rs'"
      and s: "seen_skus s = insert k (seen_skus self)" by auto
    have "sku_key a \<notin> sku_key ` set (returned rs')"
    proof
      assume "sku_key a \<in> sku_key ` set (returned rs')"
      then obtain b where b: "b \<in> set (returned rs')" "sku_key b = sku_key a" by auto
      with i obtain k' where "sku_key b = Inr k'" "k' \<notin> seen_skus s" by blast
      with b new(1) s show False by simp
    qed
    with d i r s new(1,2) show ?thesis by auto
  qed
qed

lemma process_items_card:
  "process_items items self = (rs, final) \<Longrightarrow> finite (seen_skus self) \<Longrightarrow>
   processed (stats self) = int (card (seen_skus self)) \<Longrightarrow>
   finite (seen_skus final) \<and> processed (stats final) = int (card (seen_skus final))"
proof (induction items arbitrary: self rs)
  case Nil
  then show ?case by simp
next
  case (Cons a items)
  from Cons.prems(1) obtain r s rs' where st: "process_item a self = (r, s)"
    and rest: "process_items items s = (rs', final)" and eq: "rs = r # rs'"
    by (rule process_items_Cons)
  have "finite (seen_skus s) \<and> processed (stats s) = int (card (seen_skus s))"
    using st Cons.prems(2,3) by (cases a self rule: process_item_cases) auto
  with Cons.IH[OF rest] show ?case by simp
qed


lemma process_items_append:
  "process_items (xs @ ys) self =
     (case process_items xs self of (rs1, s1) \<Rightarrow>
        (case process_items ys s1 of (rs2, s2) \<Rightarrow> (rs1 @ rs2, s2)))"
  by (induction xs arbitrary: self) (auto split: prod.splits)

lemma process_items_take_seen:
  "seen_skus (snd (process_items (take i items) init_pipeline)) =
     {k. \<exists>a \<in> set (take i items). sku_key a = Inr k}"
  using process_items_seen[of "take i items" init_pipeline]
  by (cases "process_items (take i items) init_pipeline") (simp add: init_pipeline_def)

lemma process_items_step:
  assumes "i < length items"
  shows "snd (process_items (take (Suc i) items) self) =
         snd (process_item (items ! i) (snd (process_items (take i items) self)))"
  using assms
  by (simp add: take_Suc_conv_app_nth process_items_append split: prod.splits)

lemma process_item_stats:
  "stats (snd (process_item item self)) =
     (case sku_key item of
        Inl e \<Rightarrow> stats self
      | Inr k \<Rightarrow>
          if k \<in> seen_skus self
          then (stats self)\<lparr>dropped := dropped (stats self) + 1\<rparr>
          else (stats self)\<lparr>processed := processed (stats self) + 1\<rparr>)"
  by (cases item self rule: process_item_cases) simp_all

lemma earlier_same_key:
  "i < length items \<Longrightarrow>
   (\<exists>a \<in> set (take i items). sku_key a = Inr k) = (\<exists>j<i. sku_key (items ! j) = Inr k)"
proof
  assume "\<exists>a \<in> set (take i items). sku_key a = Inr k"
  then obtain x where x: "x \<in> set (take i items)" "sku_key x = Inr k" by auto
  then obtain j where "j < length (take i items)" "take i items ! j = x"
    by (auto simp: in_set_conv_nth)
  with x show "\<exists>j<i. sku_key (items ! j) = Inr k" by auto
next
  assume a: "i < length items" and "\<exists>j<i. sku_key (items ! j) = Inr k"
  then obtain j where j: "j < i" "sku_key (items ! j) = Inr k" by auto
  with a have "take i items ! j = items ! j" "j < length (take i items)" by simp_all
  then have "items ! j \<in> set (take i items)" by (metis nth_mem)
  with j show "\<exists>a \<in> set (take i items). sku_key a = Inr k" by blast
qed

lemma process_items_step_stats:
  assumes i: "i < length items"
  shows "stats (snd (process_items (take (Suc i) items) init_pipeline)) =
         (case sku_key (items ! i) of
            Inl e \<Rightarrow> stats (snd (process_items (take i items) init_pipeline))
          | Inr k \<Rightarrow>
              if \<exists>j<i. sku_key (items ! j) = Inr k
              then (stats (snd (process_items (take i items) init_pipeline)))
                     \<lparr>dropped := dropped (stats (snd (process_items (take i items) init_pipeline))) + 1\<rparr>
              else (stats (snd (process_items (take i items) init_pipeline)))
                     \<lparr>processed := processed (stats (snd (process_items (take i items) init_pipeline))) + 1\<rparr>)"
proof -
  have "stats (snd (process_items (take (Suc i) items) init_pipeline)) =
        stats (snd (process_item (items ! i) (snd (process_items (take i items) init_pipeline))))"
    by (simp only: process_items_step[OF i])
  then show ?thesis
    by (simp add: process_item_stats process_items_take_seen earlier_same_key[OF i]
        split: sum.splits)
qed

lemma two_same_key:
  "sku_key a = Inr k \<Longrightarrow> sku_key b = Inr k \<Longrightarrow>
   stats (snd (process_items [a, b] init_pipeline)) = \<lparr>processed = 1, dropped = 1, errors = 0\<rparr>"
  by (simp add: process_item_def sku_key_def init_pipeline_def Let_def)

lemma distinct_map_sku_of:
  "distinct (map sku_key items) \<Longrightarrow> distinct (map sku_of items)"
proof -
  have "sku_key = set_key \<circ> sku_of" by (simp add: fun_eq_iff sku_key_def)
  moreover assume "distinct (map sku_key items)"
  ultimately have "distinct (map set_key (map sku_of items))" by simp
  then show ?thesis by (auto simp: distinct_map inj_on_def)
qed

lemma kit_item:
  "parse_product_data kit_page h =
     (Inr [Name \<mapsto> JStr ''Kit'', Sku \<mapsto> JObj [(''id'', JNum 7)],
           Main_category \<mapsto> JStr ''Lighting'', Sub_categories \<mapsto> JStr ''LED''], [])"
  by (auto simp: loader_defs kit_page_def kit_product_def lamp_page_def lamp_trail_def crumb_def fun_eq_iff)

text \<open>
  Claim C1, counterexample.  The structured data of \<open>kit_page\<close> gives the sku
  as an object, and the extraction hands it on as it is (the loader's input
  processor for \<open>sku\<close> is \<open>Identity\<close>).  The record is the first one bearing
  this sku, and \<open>process_item\<close> does not accept it: the test
  \<open>sku in self.seen_skus\<close> raises \<open>TypeError\<close>, the record is neither returned
  nor dropped and no counter changes.  Further, the set compares by \<open>==\<close>: after
  a record with the sku \<open>1\<close>, the first record bearing the sku \<open>True\<close> is dropped.
\<close>

theorem unhashable_sku_counterexample:
  "fst (parse_product_data kit_page []) =
     Inr [Name \<mapsto> JStr ''Kit'', Sku \<mapsto> JObj [(''id'', JNum 7)],
          Main_category \<mapsto> JStr ''Lighting'', Sub_categories \<mapsto> JStr ''LED''] \<and>
   process_items [[Name \<mapsto> JStr ''Kit'', Sku \<mapsto> JObj [(''id'', JNum 7)],
                   Main_category \<mapsto> JStr ''Lighting'', Sub_categories \<mapsto> JStr ''LED'']]
       init_pipeline =
     ([Inl TypeError], init_pipeline) \<and>
   stats init_pipeline = \<lparr>processed = 0, dropped = 0, errors = 0\<rparr> \<and>
   fst (process_items [[Sku \<mapsto> JNum 1], [Sku \<mapsto> JBool True]] init_pipeline) =
     [Inr [Sku \<mapsto> JNum 1], Inl DropItem]"
  by (simp add: kit_item process_item_def sku_of_def init_pipeline_def Let_def)

text \<open>
  Claim C1, as the code has it.  Records are handed to \<open>process_item\<close> in order,
  starting from a new pipeline.  A record whose sku cannot be hashed makes the
  call raise \<open>TypeError\<close>, and then no counter changes.  Otherwise the sku stands
  in the set as \<open>sku_key\<close> gives it (the value itself, \<open>None\<close> for a record
  without sku, \<open>True\<close> and \<open>False\<close> as \<open>1\<close> and \<open>0\<close>): the call for record
  \<open>i\<close> returns the record when no earlier record has its key, and then
  \<open>processed\<close> goes up by one and nothing else changes in the counters; it raises
  \<open>DropItem\<close> when an earlier record has its key, and then \<open>dropped\<close> goes up
  by one and nothing else changes.  At the end \<open>processed\<close> is the number of
  returned records, \<open>dropped\<close> the number of calls that raised \<open>DropItem\<close>, and
  the keys and the skus of the returned records (the feed) are pairwise distinct.
  Two records with the same hashable sku give \<open>processed = 1\<close> and
  \<open>dropped = 1\<close>.
\<close>

theorem dedup_hashable_first_accepted_later_dropped:
  assumes "process_items items init_pipeline = (rs, final)"
  shows "length rs = length items \<and>
    (\<forall>i<length items.
       rs ! i =
         (case sku_key (items ! i) of
            Inl e \<Rightarrow> Inl TypeError
          | Inr k \<Rightarrow> if \<exists>j<i. sku_key (items ! j) = Inr k
                     then Inl DropItem else Inr (items ! i))) \<and>
    (\<forall>i<length items.
       stats (snd (process_items (take (Suc i) items) init_pipeline)) =
         (case sku_key (items ! i) of
            Inl e \<Rightarrow> stats (snd (process_items (take i items) init_pipeline))
          | Inr k \<Rightarrow>
              if \<exists>j<i. sku_key (items ! j) = Inr k
              then (stats (snd (process_items (take i items) init_pipeline)))
                     \<lparr>dropped := dropped (stats (snd (process_items (take i items) init_pipeline))) + 1\<rparr>
              else (stats (snd (process_items (take i items) init_pipeline)))
                     \<lparr>processed := processed (stats (snd (process_items (take i items) init_pipeline))) + 1\<rparr>)) \<and>
    processed (stats final) = int (length (returned rs)) \<and>
    dropped (stats final) = int (length (filter (\<lambda>e. e = DropItem) (raised rs))) \<and>
    distinct (map sku_key (returned rs)) \<and>
    distinct (map sku_of (returned rs)) \<and>
    (\<forall>a b k. sku_key a = Inr k \<longrightarrow> sku_key b = Inr k \<longrightarrow>
       stats (snd (process_items [a, b] init_pipeline)) = \<lparr>processed = 1, dropped = 1, errors = 0\<rparr>)"
proof (intro conjI allI impI)
  show "length rs = length items"
    using assms by (rule process_items_length)
next
  fix i assume i: "i < length items"
  have "seen_skus init_pipeline = {}" by (simp add: init_pipeline_def)
  with process_items_nth[OF assms i]
  show "rs ! i =
         (case sku_key (items ! i) of
            Inl e \<Rightarrow> Inl TypeError
          | Inr k \<Rightarrow> if \<exists>j<i. sku_key (items ! j) = Inr k
                     then Inl DropItem else Inr (items ! i))"
    by (simp add: earlier_same_key[OF i] split: sum.splits)
next
  fix i assume i: "i < length items"
  then show "stats (snd (process_items (take (Suc i) items) init_pipeline)) =
         (case sku_key (items ! i) of
            Inl e \<Rightarrow> stats (snd (process_items (take i items) init_pipeline))
          | Inr k \<Rightarrow>
              if \<exists>j<i. sku_key (items ! j) = Inr k
              then (stats (snd (process_items (take i items) init_pipeline)))
                     \<lparr>dropped := dropped (stats (snd (process_items (take i items) init_pipeline))) + 1\<rparr>
              else (stats (snd (process_items (take i items) init_pipeline)))
                     \<lparr>processed := processed (stats (snd (process_items (take i items) init_pipeline))) + 1\<rparr>)"
    by (rule process_items_step_stats)
next
  show "processed (stats final) = int (length (returned rs))"
    using process_items_counters[OF assms] by (simp add: init_pipeline_def)
next
  show "dropped (stats final) = int (length (filter (\<lambda>e. e = DropItem) (raised rs)))"
    using process_items_counters[OF assms] by (simp add: init_pipeline_def)
next
  show d: "distinct (map sku_key (returned rs))"
    using process_items_distinct[OF assms] by simp
  then show "distinct (map sku_of (returned rs))"
    by (rule distinct_map_sku_of)
next
  fix a b k assume "sku_key a = Inr k" "sku_key b = Inr k"
  then show "stats (snd (process_items [a, b] init_pipeline)) = \<lparr>processed = 1, dropped = 1, errors = 0\<rparr>"
    by (rule two_same_key)
qed

text \<open>The scenario of the claim: two records with sku \<open>SKU1\<close>.\<close>

theorem dedup_hashable_first_accepted_later_dropped_witness:
  "process_items [[Sku \<mapsto> JStr ''SKU1''], [Sku \<mapsto> JStr ''SKU1'', Name \<mapsto> JStr ''lamp'']] init_pipeline =
     ([Inr [Sku \<mapsto> JStr ''SKU1''], Inl DropItem],
      \<lparr>seen_skus = {JStr ''SKU1''}, stats = \<lparr>processed = 1, dropped = 1, errors = 0\<rparr>\<rparr>) \<and>
   processed (stats (snd (process_items [[Sku \<mapsto> JStr ''SKU1''], [Sku \<mapsto> JStr ''SKU1'', Name \<mapsto> JStr ''lamp'']] init_pipeline))) = 1 \<and>
   dropped (stats (snd (process_items [[Sku \<mapsto> JStr ''SKU1''], [Sku \<mapsto> JStr ''SKU1'', Name \<mapsto> JStr ''lamp'']] init_pipeline))) = 1"
proof -
  have run: "process_items [[Sku \<mapsto> JStr ''SKU1''], [Sku \<mapsto> JStr ''SKU1'', Name \<mapsto> JStr ''lamp'']] init_pipeline =
     ([Inr [Sku \<mapsto> JStr ''SKU1''], Inl DropItem],
      \<lparr>seen_skus = {JStr ''SKU1''}, stats = \<lparr>processed = 1, dropped = 1, errors = 0\<rparr>\<rparr>)"
    by (simp add: process_item_def sku_of_def init_pipeline_def Let_def)
  from dedup_hashable_first_accepted_later_dropped[OF run] run show ?thesis by simp
qed

lemma process_item_rejects:
  "process_item item self = (Inl DropItem, self') \<Longrightarrow>
       seen_skus self' = seen_skus self \<and>
       processed (stats self') = processed (stats self) \<and>
       errors (stats self') = errors (stats self) \<and>
       dropped (stats self') = dropped (stats self) + 1"
  by (cases item self rule: process_item_cases) auto

lemma process_item_type_error:
  "process_item item self = (Inl TypeError, self') \<Longrightarrow> self' = self"
  by (cases item self rule: process_item_cases) auto

text \<open>
  Claim C10.  After any sequence of \<open>process_item\<close> calls on a new pipeline the
  set of seen skus is finite and \<open>processed\<close> equals its size.  A call on a sku
  that is already in the set raises \<open>DropItem\<close> and changes the \<open>dropped\<close>
  counter only: the set of seen skus, \<open>processed\<close> and \<open>errors\<close> are as before.
  A call that raises \<open>TypeError\<close> changes nothing.
\<close>

theorem processed_counts_seen_skus:
  assumes "process_items items init_pipeline = (rs, self)"
  shows "finite (seen_skus self) \<and>
    processed (stats self) = int (card (seen_skus self)) \<and>
    (\<forall>item k. sku_key item = Inr k \<longrightarrow> k \<in> seen_skus self \<longrightarrow>
       process_item item self =
         (Inl DropItem, self\<lparr>stats := (stats self)\<lparr>dropped := dropped (stats self) + 1\<rparr>\<rparr>)) \<and>
    (\<forall>item self'. process_item item self = (Inl DropItem, self') \<longrightarrow>
       seen_skus self' = seen_skus self \<and>
       processed (stats self') = processed (stats self) \<and>
       errors (stats self') = errors (stats self) \<and>
       dropped (stats self') = dropped (stats self) + 1) \<and>
    (\<forall>item self'. process_item item self = (Inl TypeError, self') \<longrightarrow> self' = self)"
proof -
  have init: "finite (seen_skus init_pipeline)"
    "processed (stats init_pipeline) = int (card (seen_skus init_pipeline))"
    by (simp_all add: init_pipeline_def)
  have inv: "finite (seen_skus self) \<and> processed (stats self) = int (card (seen_skus self))"
    using assms init by (rule process_items_card)
  have dup: "\<forall>item k. sku_key item = Inr k \<longrightarrow> k \<in> seen_skus self \<longrightarrow>
       process_item item self =
         (Inl DropItem, self\<lparr>stats := (stats self)\<lparr>dropped := dropped (stats self) + 1\<rparr>\<rparr>)"
    by (intro allI impI) (rule process_item_dup)
  have frame: "\<forall>item self'. process_item item self = (Inl DropItem, self') \<longrightarrow>
       seen_skus self' = seen_skus self \<and>
       processed (stats self') = processed (stats self) \<and>
       errors (stats self') = errors (stats self) \<and>
       dropped (stats self') = dropped (stats self) + 1"
    by (intro allI impI) (rule process_item_rejects)
  have te: "\<forall>item self'. process_item item self = (Inl TypeError, self') \<longrightarrow> self' = self"
    by (intro allI impI) (rule process_item_type_error)
  from inv dup frame te show ?thesis
    by (intro conjI) (erule conjunct1, erule conjunct2, assumption+)
qed

theorem processed_counts_seen_skus_witness:
  "card (seen_skus (snd (process_items [[Sku \<mapsto> JStr ''A''], [Sku \<mapsto> JStr ''B''], [Sku \<mapsto> JStr ''A'']] init_pipeline))) = 2 \<and>
   processed (stats (snd (process_items [[Sku \<mapsto> JStr ''A''], [Sku \<mapsto> JStr ''B''], [Sku \<mapsto> JStr ''A'']] init_pipeline))) = 2 \<and>
   process_item [Sku \<mapsto> JStr ''B'']
       (snd (process_items [[Sku \<mapsto> JStr ''A''], [Sku \<mapsto> JStr ''B''], [Sku \<mapsto> JStr ''A'']] init_pipeline)) =
     (Inl DropItem, \<lparr>seen_skus = {JStr ''B'', JStr ''A''}, stats = \<lparr>processed = 2, dropped = 2, errors = 0\<rparr>\<rparr>)"
proof -
  have run: "process_items [[Sku \<mapsto> JStr ''A''], [Sku \<mapsto> JStr ''B''], [Sku \<mapsto> JStr ''A'']] init_pipeline =
     ([Inr [Sku \<mapsto> JStr ''A''], Inr [Sku \<mapsto> JStr ''B''], Inl DropItem],
      \<lparr>seen_skus = {JStr ''B'', JStr ''A''}, stats = \<lparr>processed = 2, dropped = 1, errors = 0\<rparr>\<rparr>)"
    by (simp add: process_item_def sku_of_def init_pipeline_def Let_def)
  have key: "sku_key [Sku \<mapsto> JStr ''B''] = Inr (JStr ''B'')"
    by (simp add: sku_key_def sku_of_def)
  have mem: "JStr ''B'' \<in> seen_skus \<lparr>seen_skus = {JStr ''B'', JStr ''A''}, stats = \<lparr>processed = 2, dropped = 1, errors = 0\<rparr>\<rparr>"
    by simp
  from processed_counts_seen_skus[OF run] key mem run show ?thesis
    by simp
qed

lemma crawl_event_pipe_errors:
  "errors (stats (pipe (crawl_event e s))) = errors (stats (pipe s))"
proof (cases e)
  case Failed_request
  then show ?thesis by (simp add: handle_error_def)
next
  case (Scraped item)
  then show ?thesis by (cases item "pipe s" rule: process_item_cases) simp_all
qed

lemma foldl_crawl_event_pipe_errors:
  "errors (stats (pipe (foldl (\<lambda>s e. crawl_event e s) s evs))) = errors (stats (pipe s))"
  by (induction evs arbitrary: s) (simp_all add: crawl_event_pipe_errors)

lemma crawl_event_collector:
  "crawler_stats (crawl_event e s) ''product_page_errors'' =
     (case e of
        Failed_request \<Rightarrow>
          Some ((case crawler_stats s ''product_page_errors'' of None \<Rightarrow> 0 | Some n \<Rightarrow> n) + 1)
      | Scraped item \<Rightarrow> crawler_stats s ''product_page_errors'')"
  by (cases e) (simp_all add: handle_error_def inc_value_def)

lemma foldl_crawl_event_collector:
  "crawler_stats (foldl (\<lambda>s e. crawl_event e s) s evs) ''product_page_errors'' =
     (if failed_requests evs = 0 then crawler_stats s ''product_page_errors''
      else Some ((case crawler_stats s ''product_page_errors'' of None \<Rightarrow> 0 | Some n \<Rightarrow> n)
                 + int (failed_requests evs)))"
proof (induction evs arbitrary: s)
  case Nil
  then show ?case by (simp add: failed_requests_def)
next
  case (Cons e evs)
  show ?case
  proof (cases e)
    case Failed_request
    have "failed_requests (e # evs) = Suc (failed_requests evs)"
      using Failed_request by (simp add: failed_requests_def)
    then show ?thesis using Cons.IH[of "crawl_event e s"] Failed_request
      by (simp add: crawl_event_collector del: crawl_event.simps)
  next
    case (Scraped item)
    have "failed_requests (e # evs) = failed_requests evs"
      using Scraped by (simp add: failed_requests_def)
    then show ?thesis using Cons.IH[of "crawl_event e s"] Scraped
      by (simp add: crawl_event_collector del: crawl_event.simps)
  qed
qed

text \<open>
  Claim C4.  The summary is to report the number of failed page requests that is
  counted outside the pipeline.  \<open>handle_error\<close> counts them under the key
  \<open>product_page_errors\<close> of the crawler's collector, but nothing ever changes
  \<open>stats['errors']\<close> of the pipeline, and \<open>close_spider\<close> stores that value
  under the same key.  So for every run the collector holds the number of failed
  requests before \<open>close_spider\<close> and \<open>0\<close> after it, and the log line reads
  \<open>Failed URLs: 0\<close>.
\<close>

theorem close_spider_overwrites_error_count:
  "crawler_stats (foldl (\<lambda>s e. crawl_event e s) init_crawl evs) ''product_page_errors'' =
     (if failed_requests evs = 0 then None else Some (int (failed_requests evs))) \<and>
   crawler_stats (run_crawl evs) ''product_page_errors'' = Some 0 \<and>
   LogInfoValue ''Failed URLs: '' 0 \<in> set (logged (run_crawl evs))"
proof (intro conjI)
  show "crawler_stats (foldl (\<lambda>s e. crawl_event e s) init_crawl evs) ''product_page_errors'' =
     (if failed_requests evs = 0 then None else Some (int (failed_requests evs)))"
    by (simp add: foldl_crawl_event_collector init_crawl_def)
next
  have e: "errors (stats (pipe (foldl (\<lambda>s e. crawl_event e s) init_crawl evs))) = 0"
    by (simp add: foldl_crawl_event_pipe_errors init_crawl_def init_pipeline_def)
  then show "crawler_stats (run_crawl evs) ''product_page_errors'' = Some 0"
    by (simp add: run_crawl_def crawl_close_def close_spider_def set_value_def)
  from e show "LogInfoValue ''Failed URLs: '' 0 \<in> set (logged (run_crawl evs))"
    by (simp add: run_crawl_def crawl_close_def close_spider_def)
qed

text \<open>One failed request and no item: the count \<open>1\<close> is replaced by \<open>0\<close>.\<close>

lemma one_failed_request:
  "failed_requests [Failed_request] = 1 \<and>
   crawler_stats (foldl (\<lambda>s e. crawl_event e s) init_crawl [Failed_request]) ''product_page_errors'' = Some 1 \<and>
   crawler_stats (run_crawl [Failed_request]) ''product_page_errors'' = Some 0"
  by (simp add: failed_requests_def init_crawl_def init_pipeline_def handle_error_def inc_value_def
      run_crawl_def crawl_close_def close_spider_def set_value_def)

section \<open>Properties of the JSON writer and reader\<close>

lemma hex_value_hex_digit: "n < 16 \<Longrightarrow> hex_value (hex_digit n) = Some n"
  by (auto simp: hex_value_def hex_digit_def Let_def)

lemma read_string_quote: "read_string (CHR 0x22 # rest) = Some ([], rest)"
  by (cases rest) simp_all

lemma unicode_escape_control:
  assumes "(of_char c :: nat) < 32"
  shows "unicode_escape CHR ''0'' CHR ''0'' (hex_digit (of_char c div 16)) (hex_digit (of_char c mod 16)) = Some c"
proof -
  have a: "hex_value (hex_digit (of_char c div 16)) = Some (of_char c div 16)"
    using assms by (intro hex_value_hex_digit) simp
  have b: "hex_value (hex_digit (of_char c mod 16)) = Some (of_char c mod 16)"
    by (intro hex_value_hex_digit) simp
  have z: "hex_value CHR ''0'' = Some 0" by (simp add: hex_value_def)
  have "char_of (16 * (of_char c div 16) + of_char c mod 16 :: nat) = c"
    by simp
  with a b z show ?thesis by (simp add: unicode_escape_def)
qed

lemma read_string_escape_char:
  "read_string (escape_char c @ q # rest) = push c (read_string (q # rest))"
proof -
  consider (quote) "c = CHR 0x22" | (bs) "c = CHR 0x5C" | (nl) "c = CHR 0x0A" | (cr) "c = CHR 0x0D"
    | (tab) "c = CHR 0x09" | (b) "c = CHR 0x08" | (ff) "c = CHR 0x0C"
    | (ctl) "c \<noteq> CHR 0x22" "c \<noteq> CHR 0x5C" "c \<noteq> CHR 0x0A" "c \<noteq> CHR 0x0D" "c \<noteq> CHR 0x09"
        "c \<noteq> CHR 0x08" "c \<noteq> CHR 0x0C" "(of_char c :: nat) < 32"
    | (plain) "c \<noteq> CHR 0x22" "c \<noteq> CHR 0x5C" "\<not> (of_char c :: nat) < 32"
    by blast
  then show ?thesis
  proof cases
    case ctl
    then show ?thesis
      by (simp add: escape_char_def unicode_escape_control)
  next
    case plain
    then have "escape_char c = [c]" by (auto simp: escape_char_def)
    with plain show ?thesis by simp
  qed (simp_all add: escape_char_def unescape_def)
qed

lemma read_string_escape_char_append:
  assumes "ys \<noteq> []"
  shows "read_string (escape_char c @ ys) = push c (read_string ys)"
proof -
  from assms obtain q rest where "ys = q # rest" by (cases ys) auto
  then show ?thesis by (simp only: read_string_escape_char)
qed

lemma read_string_escaped:
  "read_string (concat (map escape_char s) @ CHR 0x22 # rest) = Some (s, rest)"
proof (induction s)
  case Nil
  then show ?case by (simp add: read_string_quote)
next
  case (Cons a s)
  have "read_string (escape_char a @ (concat (map escape_char s) @ CHR 0x22 # rest)) =
        push a (read_string (concat (map escape_char s) @ CHR 0x22 # rest))"
    by (rule read_string_escape_char_append) simp
  with Cons.IH show ?case by (simp add: push_def)
qed

lemma read_string_encode:
  "read_string (tl (encode_basestring s) @ rest) = Some (s, rest)"
  by (simp add: encode_basestring_def read_string_escaped)

lemma py_join_map:
  "py_join sep (f x # map f xs) = f x @ concat (map (\<lambda>y. sep @ f y) xs)"
  by (induction xs arbitrary: x) simp_all

lemma length_le_concat_pieces:
  "length xs \<le> length (concat (map (\<lambda>y. '','' @ [CHR 0x0A] @ ''  '' @ encode_basestring y) xs))"
  by (induction xs) simp_all

lemma json_ws_simps:
  "json_ws (CHR 0x0A)" "json_ws (CHR '' '')" "\<not> json_ws (CHR '','')" "\<not> json_ws (CHR 0x22)"
  "\<not> json_ws (CHR '']'')" "\<not> json_ws (CHR ''['')"
  by (simp_all add: json_ws_def)

lemma read_more_tail:
  "length xs < n \<Longrightarrow>
   read_more n (dropWhile json_ws
      (concat (map (\<lambda>y. '','' @ [CHR 0x0A] @ ''  '' @ encode_basestring y) xs) @ [CHR 0x0A] @ '']'')) =
   Some xs"
proof (induction xs arbitrary: n)
  case Nil
  then obtain m where "n = Suc m" by (cases n) auto
  then show ?case by (simp add: json_ws_simps)
next
  case (Cons y ys)
  then obtain m where n: "n = Suc m" and m: "length ys < m" by (cases n) auto
  have rs: "read_string (concat (map escape_char y) @ CHR 0x22 # rest) = Some (y, rest)" for rest
    by (rule read_string_escaped)
  show ?case
    using Cons.IH[OF m] unfolding n
    by (simp add: json_ws_simps encode_basestring_def rs)
qed

lemma json_string_array_json_dump: "json_string_array (json_dump xs) = Some xs"
proof (cases xs)
  case Nil
  then show ?thesis by (simp add: json_string_array_def json_dump_def json_ws_simps)
next
  case (Cons x xs')
  let ?tail = "concat (map (\<lambda>y. '','' @ [CHR 0x0A] @ ''  '' @ encode_basestring y) xs') @ [CHR 0x0A] @ '']''"
  have dump: "json_dump xs = ''['' @ [CHR 0x0A] @ ''  '' @ encode_basestring x @ ?tail"
    unfolding Cons json_dump_def list.map by (simp only: py_join_map) simp
  have "length xs' < length (json_dump xs)"
    unfolding dump using length_le_concat_pieces[of xs'] by simp
  then have more: "read_more (length (json_dump xs)) (dropWhile json_ws ?tail) = Some xs'"
    by (rule read_more_tail)
  have rs: "read_string (concat (map escape_char x) @ CHR 0x22 # ?tail) = Some (x, ?tail)"
    by (rule read_string_escaped)
  have "json_string_array (json_dump xs) =
        map_option (Cons x) (read_more (length (json_dump xs)) (dropWhile json_ws ?tail))"
  proof -
    have "dropWhile json_ws (json_dump xs) =
          CHR ''['' # [CHR 0x0A] @ ''  '' @ CHR 0x22 # (concat (map escape_char x) @ CHR 0x22 # ?tail)"
      unfolding dump by (simp add: json_ws_simps encode_basestring_def)
    then show ?thesis
      unfolding json_string_array_def
      by (simp add: json_ws_simps read_string_escaped)
  qed
  with more Cons show ?thesis by simp
qed

section \<open>Properties of the URL collector\<close>

lemma fold_insert_urls: "fold (\<lambda>url s. insert url s) urls S = set urls \<union> S"
  by (induction urls arbitrary: S) auto

lemma parse_url_based_variants_collected:
  "collected_urls (snd (parse_url_based_variants r self)) =
     collected_urls self \<union> set (fst (variant_urls r))"
  by (cases "variant_urls r") (auto simp: parse_url_based_variants_def fold_insert_urls)

lemma collect_collected:
  "collected_urls (collect rs self) = collected_urls self \<union> found_urls rs"
  by (induction rs arbitrary: self)
     (auto simp: found_urls_def parse_url_based_variants_collected)

lemma finite_found_urls: "finite (found_urls rs)"
  by (simp add: found_urls_def)

text \<open>
  Claim C7.  For every crawl run (any list of responses, any file system before)
  the file \<open>product_data/product_links.json\<close> holds the JSON text that
  \<open>json.dump\<close> writes for the sorted list of the collected URLs.  That text is a
  valid JSON array of strings whose elements are this list; the list has every
  collected URL exactly once and is in ascending order.  A run that collects no
  URL writes \<open>[]\<close>, which is the valid empty array.
\<close>

theorem collector_writes_sorted_unique_json:
  "files (run_collector rs fs) ''product_data/product_links.json'' =
     Some (json_dump (sorted_list_of_set (found_urls rs))) \<and>
   json_string_array (json_dump (sorted_list_of_set (found_urls rs))) =
     Some (sorted_list_of_set (found_urls rs)) \<and>
   set (sorted_list_of_set (found_urls rs)) = found_urls rs \<and>
   distinct (sorted_list_of_set (found_urls rs)) \<and>
   sorted (sorted_list_of_set (found_urls rs)) \<and>
   sorted_wrt (<) (sorted_list_of_set (found_urls rs)) \<and>
   files (run_collector [] fs) ''product_data/product_links.json'' = Some ''[]'' \<and>
   json_string_array ''[]'' = Some []"
proof (intro conjI)
  show "files (run_collector rs fs) ''product_data/product_links.json'' =
     Some (json_dump (sorted_list_of_set (found_urls rs)))"
    by (simp add: run_collector_def closed_def collect_collected init_sitemap_spider_def)
  show "json_string_array (json_dump (sorted_list_of_set (found_urls rs))) =
     Some (sorted_list_of_set (found_urls rs))"
    by (rule json_string_array_json_dump)
  show "set (sorted_list_of_set (found_urls rs)) = found_urls rs"
    by (simp add: finite_found_urls)
  show "distinct (sorted_list_of_set (found_urls rs))" by simp
  show "sorted (sorted_list_of_set (found_urls rs))" by simp
  show "sorted_wrt (<) (sorted_list_of_set (found_urls rs))" by simp
  show "files (run_collector [] fs) ''product_data/product_links.json'' = Some ''[]''"
    by (simp add: run_collector_def closed_def init_sitemap_spider_def json_dump_def)
  show "json_string_array ''[]'' = Some []"
    using json_string_array_json_dump[of "[]"] by (simp add: json_dump_def)
qed

text \<open>A run with two responses that find the same two URLs in the other order.\<close>

theorem collector_writes_sorted_unique_json_witness:
  "files (run_collector
       [\<lparr>response_url = ''https://x/b-p-2'', variant_hrefs = Some [''/a-p-1'', ''/b-p-2''],
         urljoin = (\<lambda>h. ''https://x'' @ h)\<rparr>,
        \<lparr>response_url = ''https://x/a-p-1'', variant_hrefs = None, urljoin = (\<lambda>h. h)\<rparr>]
       \<lparr>dirs = {}, files = Map.empty\<rparr>) ''product_data/product_links.json'' =
     Some (json_dump [''https://x/a-p-1'', ''https://x/b-p-2''])"
proof -
  have "found_urls
       [\<lparr>response_url = ''https://x/b-p-2'', variant_hrefs = Some [''/a-p-1'', ''/b-p-2''],
         urljoin = (\<lambda>h. ''https://x'' @ h)\<rparr>,
        \<lparr>response_url = ''https://x/a-p-1'', variant_hrefs = None, urljoin = (\<lambda>h. h)\<rparr>] =
     {''https://x/a-p-1'', ''https://x/b-p-2''}"
    by (auto simp: found_urls_def variant_urls_def)
  moreover have "sorted_list_of_set {''https://x/a-p-1'', ''https://x/b-p-2''} =
      [''https://x/a-p-1'', ''https://x/b-p-2'']"
    by simp
  ultimately show ?thesis
    using collector_writes_sorted_unique_json[of
       "[\<lparr>response_url = ''https://x/b-p-2'', variant_hrefs = Some [''/a-p-1'', ''/b-p-2''],
         urljoin = (\<lambda>h. ''https://x'' @ h)\<rparr>,
        \<lparr>response_url = ''https://x/a-p-1'', variant_hrefs = None, urljoin = (\<lambda>h. h)\<rparr>]"
       "\<lparr>dirs = {}, files = Map.empty\<rparr>"]
    by simp
qed

section \<open>Properties of the requests\<close>

lemma set_url_error: "set_url norm v = Inl e \<Longrightarrow> e = TypeError \<or> e = ValueError"
  by (cases v) (auto split: option.splits if_splits)

lemma set_url_str_error: "set_url norm (JStr url) = Inl e \<Longrightarrow> e = ValueError"
  by (auto split: option.splits if_splits)

lemma url_accepted_str:
  "url_accepted norm (JStr url) = (\<exists>u. norm url = Some u \<and> has_scheme u)"
  by (auto simp: url_accepted_def split: option.splits)

lemma url_accepted_iff:
  "url_accepted norm v = (\<exists>url u. v = JStr url \<and> norm url = Some u \<and> has_scheme u)"
  by (cases v) (auto simp: url_accepted_def split: option.splits)

lemma set_url_accepted:
  "url_accepted norm (JStr url) \<Longrightarrow> set_url norm (JStr url) = Inr (the (norm url))"
  by (auto simp: url_accepted_def split: option.splits if_splits)

lemma set_url_rejected:
  "\<not> url_accepted norm (JStr url) \<Longrightarrow> set_url norm (JStr url) = Inl ValueError"
  by (auto simp: url_accepted_def split: option.splits if_splits)

lemma parse_sitemap_requests:
  "fst (parse_sitemap norm page_urls) =
     map (\<lambda>url. Request (the (norm url)) Parse_url_based_variants)
       (takeWhile (\<lambda>url. url_accepted norm (JStr url)) (filter (sublist ''-p-'') page_urls))"
proof (induction page_urls)
  case Nil
  then show ?case by simp
next
  case (Cons url page_urls)
  show ?case
  proof (cases "sublist ''-p-'' url")
    case False
    with Cons show ?thesis by simp
  next
    case p: True
    show ?thesis
    proof (cases "url_accepted norm (JStr url)")
      case True
      with p Cons set_url_accepted[OF True] show ?thesis
        by (cases "parse_sitemap norm page_urls") (simp del: set_url.simps)
    next
      case False
      with p set_url_rejected[OF False] show ?thesis by (auto simp del: set_url.simps)
    qed
  qed
qed

lemma parse_sitemap_exception:
  "snd (parse_sitemap norm page_urls) =
     (if \<forall>url \<in> set (filter (sublist ''-p-'') page_urls). url_accepted norm (JStr url)
      then None else Some ValueError)"
proof (induction page_urls)
  case Nil
  then show ?case by simp
next
  case (Cons url page_urls)
  show ?case
  proof (cases "sublist ''-p-'' url")
    case False
    with Cons show ?thesis by simp
  next
    case p: True
    show ?thesis
    proof (cases "url_accepted norm (JStr url)")
      case True
      with p Cons set_url_accepted[OF True] show ?thesis
        by (cases "parse_sitemap norm page_urls") (simp del: set_url.simps)
    next
      case False
      with p set_url_rejected[OF False] show ?thesis by (auto simp del: set_url.simps)
    qed
  qed
qed

lemma sublist_p: "sublist ''-p-'' = (\<lambda>url. \<exists>ps ss. url = ps @ ''-p-'' @ ss)"
  by (simp add: fun_eq_iff sublist_def)

text \<open>
  Claim C8, counterexample.  The test is made on the whole URL string, not on its
  path.  The location \<open>https://x/b?ref=-p-1\<close> has the path \<open>/b\<close>, without
  \<open>-p-\<close>, and still gets a product page request, since its query has \<open>-p-\<close>.
\<close>

theorem product_url_by_path_counterexample:
  "parse_sitemap keep_url [''https://x/b?ref=-p-1''] =
     ([Request ''https://x/b?ref=-p-1'' Parse_url_based_variants], None) \<and>
   spec_url_path ''https://x/b?ref=-p-1'' = ''/b'' \<and>
   \<not> spec_is_product_url ''https://x/b?ref=-p-1''"
proof -
  have s: "sublist ''-p-'' ''https://x/b?ref=-p-1''" by code_simp
  have h: "has_scheme ''https://x/b?ref=-p-1''" by code_simp
  have p: "spec_url_path ''https://x/b?ref=-p-1'' = ''/b''" by (simp add: spec_url_path_def)
  have n: "\<not> sublist ''-p-'' ''/b''" by code_simp
  from s h p n show ?thesis by (simp add: spec_is_product_url_def keep_url_def)
qed

text \<open>
  Claim C8, as the code has it.  Call a page location of a child sitemap a
  product location when \<open>-p-\<close> occurs somewhere in its string.  The locations are
  taken in order; every product location gets a request with the callback
  \<open>parse_url_based_variants\<close>, for its normalised URL, until one is met that the
  constructor of the request does not take (its normalised form has no scheme):
  there the generator ends with \<open>ValueError\<close>, and no later location gets a
  request.  Nothing else is requested.  So when the constructor takes every
  product location, the requests are exactly the product locations, normalised,
  in order and with their repetitions.  Of \<open>https://x/a-p-1\<close> and
  \<open>https://x/b\<close>, with the first left as it is by the normalisation, only the
  first is requested.
\<close>

theorem product_url_iff_substring_until_rejected:
  "fst (parse_sitemap norm page_urls) =
     map (\<lambda>url. Request (the (norm url)) Parse_url_based_variants)
       (takeWhile (\<lambda>url. \<exists>u. norm url = Some u \<and> has_scheme u)
          (filter (\<lambda>url. \<exists>ps ss. url = ps @ ''-p-'' @ ss) page_urls)) \<and>
   snd (parse_sitemap norm page_urls) =
     (if \<forall>url \<in> set page_urls.
           (\<exists>ps ss. url = ps @ ''-p-'' @ ss) \<longrightarrow> (\<exists>u. norm url = Some u \<and> has_scheme u)
      then None else Some ValueError) \<and>
   ((\<forall>url \<in> set page_urls.
       (\<exists>ps ss. url = ps @ ''-p-'' @ ss) \<longrightarrow> (\<exists>u. norm url = Some u \<and> has_scheme u)) \<longrightarrow>
    parse_sitemap norm page_urls =
      (map (\<lambda>url. Request (the (norm url)) Parse_url_based_variants)
         (filter (\<lambda>url. \<exists>ps ss. url = ps @ ''-p-'' @ ss) page_urls), None)) \<and>
   (norm ''https://x/a-p-1'' = Some ''https://x/a-p-1'' \<longrightarrow>
    parse_sitemap norm [''https://x/a-p-1'', ''https://x/b''] =
      ([Request ''https://x/a-p-1'' Parse_url_based_variants], None))"
proof (intro conjI impI)
  show f: "fst (parse_sitemap norm page_urls) =
     map (\<lambda>url. Request (the (norm url)) Parse_url_based_variants)
       (takeWhile (\<lambda>url. \<exists>u. norm url = Some u \<and> has_scheme u)
          (filter (\<lambda>url. \<exists>ps ss. url = ps @ ''-p-'' @ ss) page_urls))"
    by (simp only: parse_sitemap_requests url_accepted_str sublist_p)
  show s: "snd (parse_sitemap norm page_urls) =
     (if \<forall>url \<in> set page_urls.
           (\<exists>ps ss. url = ps @ ''-p-'' @ ss) \<longrightarrow> (\<exists>u. norm url = Some u \<and> has_scheme u)
      then None else Some ValueError)"
    by (auto simp: parse_sitemap_exception url_accepted_str sublist_def)
  {
    assume a: "\<forall>url \<in> set page_urls.
       (\<exists>ps ss. url = ps @ ''-p-'' @ ss) \<longrightarrow> (\<exists>u. norm url = Some u \<and> has_scheme u)"
    then have tw: "takeWhile (\<lambda>url. \<exists>u. norm url = Some u \<and> has_scheme u)
          (filter (\<lambda>url. \<exists>ps ss. url = ps @ ''-p-'' @ ss) page_urls) =
          filter (\<lambda>url. \<exists>ps ss. url = ps @ ''-p-'' @ ss) page_urls"
      by (intro takeWhile_eq_all_conv[THEN iffD2]) simp
    have f': "fst (parse_sitemap norm page_urls) =
      map (\<lambda>url. Request (the (norm url)) Parse_url_based_variants)
         (filter (\<lambda>url. \<exists>ps ss. url = ps @ ''-p-'' @ ss) page_urls)"
      using f by (simp only: tw)
    have s': "snd (parse_sitemap norm page_urls) = None"
      using s a by simp
    show "parse_sitemap norm page_urls =
      (map (\<lambda>url. Request (the (norm url)) Parse_url_based_variants)
         (filter (\<lambda>url. \<exists>ps ss. url = ps @ ''-p-'' @ ss) page_urls), None)"
      by (rule prod_eqI) (simp_all only: fst_conv snd_conv f' s')
  }
  {
    assume n: "norm ''https://x/a-p-1'' = Some ''https://x/a-p-1''"
    have a: "sublist ''-p-'' ''https://x/a-p-1''" by code_simp
    have b: "\<not> sublist ''-p-'' ''https://x/b''" by code_simp
    have h: "has_scheme ''https://x/a-p-1''" by code_simp
    from n a b h show "parse_sitemap norm [''https://x/a-p-1'', ''https://x/b''] =
      ([Request ''https://x/a-p-1'' Parse_url_based_variants], None)"
      by simp
  }
qed

text \<open>
  The scenario of the claim, and a child sitemap whose first product location has
  no scheme: the second product location gets no request.
\<close>

theorem product_url_iff_substring_until_rejected_witness:
  "parse_sitemap keep_url [''https://x/a-p-1'', ''https://x/b''] =
     ([Request ''https://x/a-p-1'' Parse_url_based_variants], None) \<and>
   parse_sitemap keep_url [''/a-p-1'', ''https://x/c-p-2''] = ([], Some ValueError)"
proof -
  have a: "sublist ''-p-'' ''https://x/a-p-1''" by code_simp
  have b: "\<not> sublist ''-p-'' ''https://x/b''" by code_simp
  have h: "has_scheme ''https://x/a-p-1''" by code_simp
  have c: "sublist ''-p-'' ''/a-p-1''" by code_simp
  have d: "\<not> has_scheme ''/a-p-1''" by code_simp
  have e: "sublist ''-p-'' ''https://x/c-p-2''" by code_simp
  have 1: "parse_sitemap keep_url [''https://x/a-p-1'', ''https://x/b''] =
     ([Request ''https://x/a-p-1'' Parse_url_based_variants], None)"
    using product_url_iff_substring_until_rejected[of keep_url "[''https://x/a-p-1'', ''https://x/b'']"]
    by (simp add: keep_url_def)
  have 2: "parse_sitemap keep_url [''/a-p-1'', ''https://x/c-p-2''] = ([], Some ValueError)"
    using product_url_iff_substring_until_rejected[of keep_url "[''/a-p-1'', ''https://x/c-p-2'']"] c d e
    by (simp add: keep_url_def sublist_def[symmetric] prod_eq_iff)
  from 1 2 show ?thesis by simp
qed

section \<open>Properties of reading the URL list\<close>

lemma py_iter_error: "py_iter doc = Inl e \<Longrightarrow> e = TypeError"
  by (cases doc) auto

lemma yield_requests_requests:
  "fst (yield_requests norm urls) =
     map (\<lambda>url. SeleniumRequest (projr (set_url norm url)) Parse Handle_error 5)
       (takeWhile (url_accepted norm) urls)"
proof (induction urls)
  case Nil
  then show ?case by simp
next
  case (Cons url urls)
  show ?case
  proof (cases "set_url norm url")
    case (Inl e)
    then show ?thesis by (simp add: url_accepted_def)
  next
    case (Inr u)
    with Cons show ?thesis
      by (cases "yield_requests norm urls") (simp add: url_accepted_def)
  qed
qed

lemma yield_requests_exception:
  "snd (yield_requests norm urls) =
     (case dropWhile (url_accepted norm) urls of
        [] \<Rightarrow> None
      | url # rest \<Rightarrow> Some (projl (set_url norm url)))"
proof (induction urls)
  case Nil
  then show ?case by simp
next
  case (Cons url urls)
  show ?case
  proof (cases "set_url norm url")
    case (Inl e)
    then show ?thesis by (simp add: url_accepted_def)
  next
    case (Inr u)
    with Cons show ?thesis
      by (cases "yield_requests norm urls") (simp add: url_accepted_def)
  qed
qed

lemma yield_requests_not_caught:
  "snd (yield_requests norm urls) \<noteq> Some FileNotFoundError \<and>
   snd (yield_requests norm urls) \<noteq> Some JSONDecodeError"
proof (induction urls)
  case Nil
  then show ?case by simp
next
  case (Cons url urls)
  show ?case
  proof (cases "set_url norm url")
    case (Inl e)
    with set_url_error[OF Inl] show ?thesis by auto
  next
    case (Inr u)
    with Cons show ?thesis
      by (cases "yield_requests norm urls") simp
  qed
qed

lemma start_requests_load_error:
  "load_links json_load project_dir fs = Inl e \<Longrightarrow>
   start_requests norm json_load project_dir fs =
     \<lparr>requests = [],
      start_log = (if e = FileNotFoundError then [LogError ''JSON file not found: '']
                   else if e = JSONDecodeError then [LogError ''Failed to parse JSON file: '']
                   else []),
      uncaught = (if e = FileNotFoundError \<or> e = JSONDecodeError then None else Some e),
      made_dirs = insert ''product_data'' (dirs fs)\<rparr>"
  by (simp add: start_requests_def read_and_yield_def)

lemma start_requests_not_iterable:
  "load_links json_load project_dir fs = Inr doc \<Longrightarrow> py_iter doc = Inl e \<Longrightarrow>
   start_requests norm json_load project_dir fs =
     \<lparr>requests = [], start_log = [], uncaught = Some TypeError,
      made_dirs = insert ''product_data'' (dirs fs)\<rparr>"
  using py_iter_error[of doc e] by (simp add: start_requests_def read_and_yield_def)

lemma start_requests_iterable:
  assumes "load_links json_load project_dir fs = Inr doc" "py_iter doc = Inr urls"
  shows "start_requests norm json_load project_dir fs =
     \<lparr>requests = map (\<lambda>url. SeleniumRequest (projr (set_url norm url)) Parse Handle_error 5)
                   (takeWhile (url_accepted norm) urls),
      start_log = [],
      uncaught = (case dropWhile (url_accepted norm) urls of
                    [] \<Rightarrow> None
                  | url # rest \<Rightarrow> Some (projl (set_url norm url))),
      made_dirs = insert ''product_data'' (dirs fs)\<rparr>"
proof -
  obtain rs x where y: "yield_requests norm urls = (rs, x)" by (cases "yield_requests norm urls")
  from y yield_requests_requests[of norm urls]
  have rs: "rs = map (\<lambda>url. SeleniumRequest (projr (set_url norm url)) Parse Handle_error 5)
                   (takeWhile (url_accepted norm) urls)" by simp
  from y yield_requests_exception[of norm urls]
  have x: "x = (case dropWhile (url_accepted norm) urls of
                    [] \<Rightarrow> None
                  | url # rest \<Rightarrow> Some (projl (set_url norm url)))" by simp
  from y yield_requests_not_caught[of norm urls]
  have n: "x \<noteq> Some FileNotFoundError" "x \<noteq> Some JSONDecodeError" by simp_all
  have "start_requests norm json_load project_dir fs =
     \<lparr>requests = rs, start_log = [], uncaught = x,
      made_dirs = insert ''product_data'' (dirs fs)\<rparr>"
    using assms y n by (cases x) (simp_all add: start_requests_def read_and_yield_def)
  then show ?thesis by (simp only: rs x)
qed

lemma load_links_missing:
  "links_path project_dir \<notin> dirs fs \<Longrightarrow> files fs (links_path project_dir) = None \<Longrightarrow>
   load_links json_load project_dir fs = Inl FileNotFoundError"
  by (simp add: load_links_def py_open_def)

lemma load_links_content:
  "links_path project_dir \<notin> dirs fs \<Longrightarrow> files fs (links_path project_dir) = Some content \<Longrightarrow>
   load_links json_load project_dir fs = json_load content"
  by (simp add: load_links_def py_open_def)

text \<open>
  Claim C9, counterexample.  The URL list file is there and holds the valid JSON
  text \<open>null\<close>.  \<open>json.load\<close> returns \<open>None\<close>, the loop over it raises
  \<open>TypeError\<close>, and neither \<open>except\<close> clause catches it: no request is yielded
  (so no record is produced), no error is logged, and the exception leaves
  \<open>start_requests\<close>.  A missing file and a file that is not JSON are therefore not
  the only inputs that stop the run.
\<close>

theorem start_requests_null_counterexample:
  "py_open null_file (links_path ''project'') = Inr ''null'' \<and>
   load_null ''null'' = Inr JNull \<and>
   start_requests keep_url load_null ''project'' null_file =
     \<lparr>requests = [], start_log = [], uncaught = Some TypeError,
      made_dirs = {''product_data''}\<rparr>"
  by (simp add: start_requests_def read_and_yield_def load_links_def py_open_def null_file_def
      load_null_def)

text \<open>
  Claim C9, as the code has it.  When the URL list file is missing, or
  \<open>json.load\<close> raises \<open>JSONDecodeError\<close> on its content, \<open>start_requests\<close>
  logs one error, yields no request (so no page is fetched and no record is
  produced) and ends without an exception; an error is logged exactly when
  opening and loading the file raises one of these two exceptions.  These are not
  the only inputs that stop the run.  Any other exception of opening and loading
  (the path is a directory, the bytes are not UTF-8) leaves \<open>start_requests\<close>
  with no request and nothing logged; so does the \<open>TypeError\<close> of a document
  that cannot be iterated.  For a document that can be iterated, the elements are
  taken in order and each gets a \<open>SeleniumRequest\<close> for its normalised URL, with
  callback \<open>parse\<close>, errback \<open>handle_error\<close> and \<open>wait_time\<close> 5, until one is
  met that the constructor does not take (not a string, or a string without
  scheme): its \<open>TypeError\<close> or \<open>ValueError\<close> leaves \<open>start_requests\<close>, nothing
  is logged and no later element gets a request.
\<close>

theorem start_requests_logged_and_uncaught:
  "(links_path project_dir \<notin> dirs fs \<and> files fs (links_path project_dir) = None \<longrightarrow>
      start_requests norm json_load project_dir fs =
        \<lparr>requests = [], start_log = [LogError ''JSON file not found: ''], uncaught = None,
         made_dirs = insert ''product_data'' (dirs fs)\<rparr>) \<and>
   (\<forall>content. links_path project_dir \<notin> dirs fs \<and>
        files fs (links_path project_dir) = Some content \<and>
        json_load content = Inl JSONDecodeError \<longrightarrow>
      start_requests norm json_load project_dir fs =
        \<lparr>requests = [], start_log = [LogError ''Failed to parse JSON file: ''], uncaught = None,
         made_dirs = insert ''product_data'' (dirs fs)\<rparr>) \<and>
   ((start_log (start_requests norm json_load project_dir fs) \<noteq> []) =
      (load_links json_load project_dir fs = Inl FileNotFoundError \<or>
       load_links json_load project_dir fs = Inl JSONDecodeError)) \<and>
   (start_log (start_requests norm json_load project_dir fs) \<noteq> [] \<longrightarrow>
      requests (start_requests norm json_load project_dir fs) = [] \<and>
      uncaught (start_requests norm json_load project_dir fs) = None) \<and>
   (\<forall>e. load_links json_load project_dir fs = Inl e \<and>
        e \<noteq> FileNotFoundError \<and> e \<noteq> JSONDecodeError \<longrightarrow>
      start_requests norm json_load project_dir fs =
        \<lparr>requests = [], start_log = [], uncaught = Some e,
         made_dirs = insert ''product_data'' (dirs fs)\<rparr>) \<and>
   (\<forall>doc. load_links json_load project_dir fs = Inr doc \<and> py_iter doc = Inl TypeError \<longrightarrow>
      start_requests norm json_load project_dir fs =
        \<lparr>requests = [], start_log = [], uncaught = Some TypeError,
         made_dirs = insert ''product_data'' (dirs fs)\<rparr>) \<and>
   (\<forall>doc urls. load_links json_load project_dir fs = Inr doc \<and> py_iter doc = Inr urls \<longrightarrow>
      start_requests norm json_load project_dir fs =
        \<lparr>requests = map (\<lambda>url. SeleniumRequest (projr (set_url norm url)) Parse Handle_error 5)
                      (takeWhile (url_accepted norm) urls),
         start_log = [],
         uncaught = (case dropWhile (url_accepted norm) urls of
                       [] \<Rightarrow> None
                     | url # rest \<Rightarrow> Some (projl (set_url norm url))),
         made_dirs = insert ''product_data'' (dirs fs)\<rparr>) \<and>
   (\<forall>v. url_accepted norm v = (\<exists>url u. v = JStr url \<and> norm url = Some u \<and> has_scheme u)) \<and>
   (\<forall>v e. set_url norm v = Inl e \<longrightarrow> e = TypeError \<or> e = ValueError)"
proof (intro conjI allI impI)
  assume "links_path project_dir \<notin> dirs fs \<and> files fs (links_path project_dir) = None"
  then have "load_links json_load project_dir fs = Inl FileNotFoundError"
    by (simp add: load_links_missing)
  then show "start_requests norm json_load project_dir fs =
        \<lparr>requests = [], start_log = [LogError ''JSON file not found: ''], uncaught = None,
         made_dirs = insert ''product_data'' (dirs fs)\<rparr>"
    by (simp add: start_requests_load_error)
next
  fix content
  assume "links_path project_dir \<notin> dirs fs \<and>
        files fs (links_path project_dir) = Some content \<and>
        json_load content = Inl JSONDecodeError"
  then have "load_links json_load project_dir fs = Inl JSONDecodeError"
    by (simp add: load_links_content)
  then show "start_requests norm json_load project_dir fs =
        \<lparr>requests = [], start_log = [LogError ''Failed to parse JSON file: ''], uncaught = None,
         made_dirs = insert ''product_data'' (dirs fs)\<rparr>"
    by (simp add: start_requests_load_error)
next
  show "(start_log (start_requests norm json_load project_dir fs) \<noteq> []) =
      (load_links json_load project_dir fs = Inl FileNotFoundError \<or>
       load_links json_load project_dir fs = Inl JSONDecodeError)"
  proof (cases "load_links json_load project_dir fs")
    case (Inl e)
    then show ?thesis by (simp add: start_requests_load_error)
  next
    case (Inr doc)
    then show ?thesis
      by (cases "py_iter doc") (simp_all add: start_requests_not_iterable start_requests_iterable)
  qed
next
  assume l: "start_log (start_requests norm json_load project_dir fs) \<noteq> []"
  show "requests (start_requests norm json_load project_dir fs) = []"
  proof (cases "load_links json_load project_dir fs")
    case (Inl e)
    then show ?thesis by (simp add: start_requests_load_error)
  next
    case (Inr doc)
    then show ?thesis using l
      by (cases "py_iter doc") (simp_all add: start_requests_not_iterable start_requests_iterable)
  qed
  show "uncaught (start_requests norm json_load project_dir fs) = None"
  proof (cases "load_links json_load project_dir fs")
    case (Inl e)
    then show ?thesis using l by (simp add: start_requests_load_error split: if_splits)
  next
    case (Inr doc)
    then show ?thesis using l
      by (cases "py_iter doc") (simp_all add: start_requests_not_iterable start_requests_iterable)
  qed
next
  fix e
  assume "load_links json_load project_dir fs = Inl e \<and>
        e \<noteq> FileNotFoundError \<and> e \<noteq> JSONDecodeError"
  then show "start_requests norm json_load project_dir fs =
        \<lparr>requests = [], start_log = [], uncaught = Some e,
         made_dirs = insert ''product_data'' (dirs fs)\<rparr>"
    by (simp add: start_requests_load_error)
next
  fix doc
  assume "load_links json_load project_dir fs = Inr doc \<and> py_iter doc = Inl TypeError"
  then show "start_requests norm json_load project_dir fs =
        \<lparr>requests = [], start_log = [], uncaught = Some TypeError,
         made_dirs = insert ''product_data'' (dirs fs)\<rparr>"
    by (simp add: start_requests_not_iterable)
next
  fix doc urls
  assume "load_links json_load project_dir fs = Inr doc \<and> py_iter doc = Inr urls"
  then show "start_requests norm json_load project_dir fs =
        \<lparr>requests = map (\<lambda>url. SeleniumRequest (projr (set_url norm url)) Parse Handle_error 5)
                      (takeWhile (url_accepted norm) urls),
         start_log = [],
         uncaught = (case dropWhile (url_accepted norm) urls of
                       [] \<Rightarrow> None
                     | url # rest \<Rightarrow> Some (projl (set_url norm url))),
         made_dirs = insert ''product_data'' (dirs fs)\<rparr>"
    by (simp add: start_requests_iterable)
next
  fix v
  show "url_accepted norm v = (\<exists>url u. v = JStr url \<and> norm url = Some u \<and> has_scheme u)"
    by (rule url_accepted_iff)
next
  fix v e
  assume "set_url norm v = Inl e"
  then show "e = TypeError \<or> e = ValueError" by (rule set_url_error)
qed

text \<open>
  Three runs: no file; a file that is not JSON; the file that the collector
  writes for two product URLs.
\<close>

theorem start_requests_logged_and_uncaught_witness:
  "start_requests keep_url load_string_array ''project'' \<lparr>dirs = {}, files = Map.empty\<rparr> =
     \<lparr>requests = [], start_log = [LogError ''JSON file not found: ''], uncaught = None,
      made_dirs = {''product_data''}\<rparr> \<and>
   start_requests keep_url load_string_array ''project''
       \<lparr>dirs = {}, files = [links_path ''project'' \<mapsto> ''{'']\<rparr> =
     \<lparr>requests = [], start_log = [LogError ''Failed to parse JSON file: ''], uncaught = None,
      made_dirs = {''product_data''}\<rparr> \<and>
   start_requests keep_url load_string_array ''project'' two_links_file =
     \<lparr>requests = [SeleniumRequest ''https://x/a-p-1'' Parse Handle_error 5,
                  SeleniumRequest ''https://x/c-p-2'' Parse Handle_error 5],
      start_log = [], uncaught = None, made_dirs = {''product_data''}\<rparr>"
proof -
  have 1: "start_requests keep_url load_string_array ''project'' \<lparr>dirs = {}, files = Map.empty\<rparr> =
     \<lparr>requests = [], start_log = [LogError ''JSON file not found: ''], uncaught = None,
      made_dirs = {''product_data''}\<rparr>"
    using start_requests_logged_and_uncaught[of "''project''" "\<lparr>dirs = {}, files = Map.empty\<rparr>"
        keep_url load_string_array]
    by simp
  have bad: "load_string_array ''{'' = Inl JSONDecodeError"
    by (simp add: load_string_array_def json_string_array_def json_ws_simps)
  have 2: "start_requests keep_url load_string_array ''project''
       \<lparr>dirs = {}, files = [links_path ''project'' \<mapsto> ''{'']\<rparr> =
     \<lparr>requests = [], start_log = [LogError ''Failed to parse JSON file: ''], uncaught = None,
      made_dirs = {''product_data''}\<rparr>"
    using start_requests_logged_and_uncaught[of "''project''"
        "\<lparr>dirs = {}, files = [links_path ''project'' \<mapsto> ''{'']\<rparr>" keep_url load_string_array] bad
    by simp
  have doc: "load_links load_string_array ''project'' two_links_file =
     Inr (JArr [JStr ''https://x/a-p-1'', JStr ''https://x/c-p-2''])"
    by (simp add: load_links_def py_open_def two_links_file_def load_string_array_def
        json_string_array_json_dump two_links_def)
  have a: "has_scheme ''https://x/a-p-1''" by code_simp
  have c: "has_scheme ''https://x/c-p-2''" by code_simp
  have acc: "url_accepted keep_url (JStr ''https://x/a-p-1'')" "url_accepted keep_url (JStr ''https://x/c-p-2'')"
    using a c by (simp_all add: url_accepted_def keep_url_def)
  have 3: "start_requests keep_url load_string_array ''project'' two_links_file =
     \<lparr>requests = [SeleniumRequest ''https://x/a-p-1'' Parse Handle_error 5,
                  SeleniumRequest ''https://x/c-p-2'' Parse Handle_error 5],
      start_log = [], uncaught = None, made_dirs = {''product_data''}\<rparr>"
    using start_requests_logged_and_uncaught[of "''project''" two_links_file keep_url load_string_array]
      doc acc a c
    by (simp add: keep_url_def two_links_file_def)
  from 1 2 3 show ?thesis by simp
qed

lemma lamp_item:
  "parse_product_data lamp_page h =
     (Inr [Name \<mapsto> JStr ''Lamp X'', Url \<mapsto> JStr ''https://x/lamp-p-1'', Sku \<mapsto> JStr ''SKU1'',
           Price \<mapsto> JNum 120000, Main_category \<mapsto> JStr ''Lighting'',
           Sub_categories \<mapsto> JStr ''LED''], [])"
  by (auto simp: loader_defs lamp_page_def lamp_product_def lamp_trail_def crumb_def fun_eq_iff)

text \<open>
  Claim C3.  The trail of \<open>lamp_page\<close> has five entries, so the record is to
  carry the main category \<open>Lighting\<close> and the sub-categories \<open>LED\<close>,
  \<open>Ceiling\<close>, in this order.  The code collects both names in \<open>sub_cats\<close> and
  adds them, but the loader's output processor \<open>TakeFirst\<close> keeps the first one
  only: the item's \<open>sub_categories\<close> is the string \<open>LED\<close>.
\<close>

theorem sub_categories_keeps_first_only:
  "(case parse_product_data lamp_page [] of
      (Inr item, lg) \<Rightarrow>
        item Main_category = Some (JStr ''Lighting'') \<and>
        item Sub_categories = Some (JStr ''LED'') \<and>
        item Sub_categories \<noteq> Some (JArr [JStr ''LED'', JStr ''Ceiling''])
    | (Inl e, lg) \<Rightarrow> False)"
  by (simp add: lamp_item)

lemma parse_product_data_Absent:
  "product_script pg h = Absent \<Longrightarrow> parse_product_data pg h = (Inl TimeoutException, [])"
  by (simp add: parse_product_data_def product_part_def)

lemma emit_variants_no_data:
  assumes "\<And>h. parse_product_data pg h = (Inl e, [])"
  shows "fst (emit_variants pg names combinations h) = []"
proof (cases combinations)
  case Nil
  then show ?thesis by simp
next
  case (Cons c cs)
  then show ?thesis using assms by (simp split: sum.splits prod.splits)
qed

text \<open>
  Claim C5.  On any page on which the wait for the structured-data marker expires
  (whatever the rest of the page is), the base extraction raises
  \<open>TimeoutException\<close>, which its handler for \<open>JSONDecodeError\<close> does not
  catch: no partial record is built.  The variant enumeration calls the
  extraction for every combination, so it yields no record either, and
  \<open>parse\<close> yields no record at all for the page.
\<close>

theorem marker_timeout_aborts_extraction:
  "parse_product_data (pg\<lparr>product_script := (\<lambda>h. Absent)\<rparr>) h = (Inl TimeoutException, []) \<and>
   fst (parse_product_variants (pg\<lparr>product_script := (\<lambda>h. Absent)\<rparr>)) = [] \<and>
   records (fst (parse (pg\<lparr>product_script := (\<lambda>h. Absent)\<rparr>))) = []"
proof -
  let ?pg = "pg\<lparr>product_script := (\<lambda>h. Absent)\<rparr>"
  have a: "parse_product_data ?pg h = (Inl TimeoutException, [])" for h
    by (rule parse_product_data_Absent) simp
  have e: "fst (emit_variants ?pg names combinations h) = []" for names combinations h
    using a by (rule emit_variants_no_data)
  have b: "fst (parse_product_variants ?pg) = []"
  proof (cases "variant_block ?pg")
    case None
    then show ?thesis by (simp add: parse_product_variants_def variants_body_def)
  next
    case (Some features)
    show ?thesis
    proof (cases "gather_features features")
      case (Inl x)
      with Some show ?thesis by (simp add: parse_product_variants_def variants_body_def)
    next
      case (Inr p)
      obtain ns names where p: "p = (ns, names)" by (cases p)
      obtain items lg r where em:
        "emit_variants ?pg names (product_lists (map (\<lambda>i. [0..<i]) ns)) [] = (items, lg, r)"
        by (cases "emit_variants ?pg names (product_lists (map (\<lambda>i. [0..<i]) ns)) []") auto
      with e[of names "product_lists (map (\<lambda>i. [0..<i]) ns)" "[]"] have "items = []" by simp
      with Some Inr p em show ?thesis
        by (cases r) (simp_all add: parse_product_variants_def variants_body_def)
    qed
  qed
  have c: "records (fst (parse ?pg)) = []"
    using b by (cases "parse_product_variants ?pg") (simp add: parse_def)
  from a b c show ?thesis by (intro conjI)
qed

lemma records_Product_item: "records (map Product_item items) = items"
  by (induction items) simp_all

text \<open>
  Claim C6.  For every page the first value that \<open>parse\<close> yields is the
  generator object, and the records it yields are exactly the variant records:
  no base record is emitted.  For \<open>lamp_page\<close>, a page with complete data and
  no variant region, \<open>parse\<close> yields no record.
\<close>

theorem parse_yields_generator_not_base_record:
  "hd (fst (parse pg)) = Generator_object \<and>
   records (fst (parse pg)) = fst (parse_product_variants pg) \<and>
   parse lamp_page = ([Generator_object], [LogWarning ''Product parsing error on ''])"
proof (intro conjI)
  show "hd (fst (parse pg)) = Generator_object"
    by (cases "parse_product_variants pg") (simp add: parse_def)
  show "records (fst (parse pg)) = fst (parse_product_variants pg)"
    by (cases "parse_product_variants pg") (simp add: parse_def records_Product_item)
  show "parse lamp_page = ([Generator_object], [LogWarning ''Product parsing error on ''])"
    by (simp add: parse_def parse_product_variants_def variants_body_def lamp_page_def)
qed

subsection \<open>The loader keeps strings in the stripped fields\<close>

lemma keeps_returning: "keeps P (returning r)"
  by (simp add: keeps_def returning_def)

lemma keeps_and_then:
  assumes "keeps P m" and "\<And>x. keeps P (k x)"
  shows "keeps P (and_then m k)"
  unfolding keeps_def and_then_def
proof (intro allI impI)
  fix ld assume p: "P ld"
  obtain r ld' where m: "m ld = (r, ld')" by (cases "m ld")
  with assms(1) p have p': "P ld'" by (auto simp: keeps_def)
  show "P (snd (case m ld of (Inl e, ld') \<Rightarrow> (Inl e, ld') | (Inr x, ld') \<Rightarrow> k x ld'))"
  proof (cases r)
    case (Inl e)
    with m p' show ?thesis by simp
  next
    case (Inr x)
    with m p' assms(2)[of x] show ?thesis by (simp add: keeps_def)
  qed
qed

lemma map_compose_strip_strings:
  "map_compose_strip vs = Inr ws \<Longrightarrow> \<forall>w \<in> set ws. \<exists>s. w = JStr s"
proof (induction vs arbitrary: ws)
  case Nil
  then show ?case by simp
next
  case (Cons v vs)
  then show ?case
    by (cases v) (auto split: sum.splits)
qed

lemma process_input_value_strings:
  "input_processor f = MapCompose_strip \<Longrightarrow> process_input_value f vs = Inr ws \<Longrightarrow>
   \<forall>w \<in> set ws. \<exists>s. w = JStr s"
  using map_compose_strip_strings[of vs ws]
  by (auto simp: process_input_value_def split: sum.splits)

lemma keeps_add_value:
  assumes "f \<noteq> Variant_name"
  shows "keeps string_valued (add_value f v)"
  unfolding keeps_def
proof (intro allI impI)
  fix ld assume sv: "string_valued ld"
  show "string_valued (snd (add_value f v ld))"
  proof (cases "process_input_value f (arg_to_iter v)")
    case (Inl e)
    with sv show ?thesis by (simp add: add_value_def)
  next
    case (Inr ws)
    have "string_valued (ld(f := ld f @ ws))"
      unfolding string_valued_def
    proof (intro conjI allI impI ballI)
      fix g w assume g: "input_processor g = MapCompose_strip" and w: "w \<in> set ((ld(f := ld f @ ws)) g)"
      show "\<exists>s. w = JStr s"
      proof (cases "g = f")
        case True
        with w have "w \<in> set (ld f) \<or> w \<in> set ws" by auto
        then show ?thesis
          using sv g True process_input_value_strings[OF _ Inr]
          by (auto simp: string_valued_def)
      next
        case False
        with w sv g show ?thesis by (auto simp: string_valued_def)
      qed
    next
      show "(ld(f := ld f @ ws)) Variant_name = []"
        using assms sv by (simp add: string_valued_def)
    qed
    with Inr sv show ?thesis by (simp add: add_value_def)
  qed
qed

lemma keeps_add_from: "f \<noteq> Variant_name \<Longrightarrow> keeps string_valued (add_from data key f)"
  unfolding add_from_def
  by (intro keeps_and_then keeps_returning keeps_add_value)

lemma keeps_load_product: "keeps string_valued (load_product data)"
  unfolding load_product_def
  by (intro keeps_and_then keeps_returning keeps_add_value keeps_add_from) simp_all

lemma keeps_main_category_of: "keeps string_valued (main_category_of breadcrumbs)"
  unfolding main_category_of_def
  by (intro keeps_and_then keeps_returning keeps_add_value) simp_all

lemma keeps_load_breadcrumbs: "keeps string_valued (load_breadcrumbs breadcrumb_data)"
  unfolding load_breadcrumbs_def
  by (intro keeps_and_then keeps_returning)
     (auto intro!: keeps_and_then keeps_returning keeps_add_value keeps_main_category_of)

lemma keepsD: "keeps P m \<Longrightarrow> P ld \<Longrightarrow> m ld = (r, ld') \<Longrightarrow> P ld'"
  by (auto simp: keeps_def)

lemma product_part_string_valued:
  "string_valued ld \<Longrightarrow> product_part sc ld = (r, ld', lg) \<Longrightarrow> string_valued ld'"
  by (cases sc)
     (auto simp: product_part_def split: prod.splits sum.splits if_splits
           dest: keepsD[OF keeps_load_product])

lemma breadcrumb_part_string_valued:
  "string_valued ld \<Longrightarrow> breadcrumb_part sc ld = (r, ld', lg) \<Longrightarrow> string_valued ld'"
  by (cases sc)
     (auto simp: breadcrumb_part_def split: prod.splits sum.splits if_splits
           dest: keepsD[OF keeps_load_breadcrumbs])

lemma take_first_mem: "take_first vs = Some v \<Longrightarrow> v \<in> set vs"
  by (induction vs) (auto split: if_splits)

lemma load_item_base: "string_valued ld \<Longrightarrow> base_item (load_item ld)"
  unfolding base_item_def load_item_def string_valued_def
proof (intro conjI allI impI)
  fix f assume a: "(\<forall>f. input_processor f = MapCompose_strip \<longrightarrow> (\<forall>v\<in>set (ld f). \<exists>s. v = JStr s)) \<and>
      ld Variant_name = []" and f: "input_processor f = MapCompose_strip"
  show "take_first (ld f) = None \<or> (\<exists>s. take_first (ld f) = Some (JStr s))"
  proof (cases "take_first (ld f)")
    case None
    then show ?thesis by simp
  next
    case (Some v)
    then have "v \<in> set (ld f)" by (rule take_first_mem)
    with a f Some show ?thesis by auto
  qed
next
  assume "(\<forall>f. input_processor f = MapCompose_strip \<longrightarrow> (\<forall>v\<in>set (ld f). \<exists>s. v = JStr s)) \<and>
      ld Variant_name = []"
  then show "take_first (ld Variant_name) = None" by simp
qed

lemma string_valued_new: "string_valued new_loader"
  by (simp add: string_valued_def new_loader_def)

lemma parse_product_data_base_item:
  assumes "parse_product_data pg h = (Inr item, lg)"
  shows "base_item item"
proof -
  obtain r1 ld1 lg1 where p: "product_part (product_script pg h) new_loader = (r1, ld1, lg1)"
    by (cases "product_part (product_script pg h) new_loader") auto
  obtain r2 ld2 lg2 where b: "breadcrumb_part (breadcrumb_script pg h) ld1 = (r2, ld2, lg2)"
    by (cases "breadcrumb_part (breadcrumb_script pg h) ld1") auto
  have "string_valued ld1" using string_valued_new p by (rule product_part_string_valued)
  then have "string_valued ld2" using b by (rule breadcrumb_part_string_valued)
  then have "base_item (load_item ld2)" by (rule load_item_base)
  moreover have "item = load_item ld2"
    using assms p b by (auto simp: parse_product_data_def split: option.splits)
  ultimately show ?thesis by simp
qed

text \<open>
  In particular the \<open>sub_categories\<close> of an extracted record is never a list: it
  is absent or one string, whatever the breadcrumb trail is.
\<close>

lemma sub_categories_never_a_list:
  assumes "parse_product_data pg h = (Inr item, lg)"
  shows "item Sub_categories \<noteq> Some (JArr xs)"
proof -
  from assms have "base_item item" by (rule parse_product_data_base_item)
  then have "item Sub_categories = None \<or> (\<exists>s. item Sub_categories = Some (JStr s))"
    by (simp add: base_item_def)
  then show ?thesis by auto
qed

subsection \<open>The variant enumeration when no step raises\<close>

lemma add_value_base:
  assumes "base_item item" and "item f = Some v" and "ld Variant_name = []"
  shows "\<exists>ld'. add_value f v ld = (Inr (), ld') \<and> ld' Variant_name = []"
proof (cases "input_processor f")
  case Identity
  then have "f \<noteq> Variant_name" by auto
  with Identity assms(3) show ?thesis
    by (auto simp: add_value_def process_input_value_def)
next
  case MapCompose_strip
  from assms(1) MapCompose_strip have "item f = None \<or> (\<exists>s. item f = Some (JStr s))"
    unfolding base_item_def by blast
  with assms(2) obtain s where v: "v = JStr s" by auto
  from assms(1,2) have "f \<noteq> Variant_name" by (auto simp: base_item_def)
  with MapCompose_strip v assms(3) show ?thesis
    by (auto simp: add_value_def process_input_value_def)
qed

lemma add_item_values_base:
  assumes "base_item item" and "ld Variant_name = []"
  shows "\<exists>ld'. add_item_values fs item ld = (Inr (), ld') \<and> ld' Variant_name = []"
  using assms(2)
proof (induction fs arbitrary: ld)
  case Nil
  then show ?case by (simp add: returning_def)
next
  case (Cons f fs)
  show ?case
  proof (cases "item f")
    case None
    with Cons show ?thesis by simp
  next
    case (Some v)
    from add_value_base[of item f v ld, OF assms(1) Some Cons.prems] obtain ld1
      where a: "add_value f v ld = (Inr (), ld1)" and e: "ld1 Variant_name = []" by auto
    from Cons.IH[of ld1, OF e] a Some show ?thesis by (simp add: and_then_def)
  qed
qed

lemma variant_item_base:
  assumes "base_item item"
  shows "\<exists>v. variant_item item variant_name = Inr v \<and>
             v Variant_name = (if py_strip variant_name = [] then None
                               else Some (JStr (py_strip variant_name)))"
proof -
  have "new_loader Variant_name = []" by (simp add: new_loader_def)
  from add_item_values_base[of item new_loader item_fields, OF assms this] obtain ld
    where a: "add_item_values item_fields item new_loader = (Inr (), ld)"
      and e: "ld Variant_name = []"
    by auto
  then show ?thesis
    by (simp add: variant_item_def and_then_def add_value_def process_input_value_def load_item_def)
qed

lemma product_lists_in_range:
  assumes "comb \<in> set (product_lists (map (\<lambda>k. [0..<k]) ks))"
  shows "in_range ks comb"
proof -
  from assms have la: "list_all2 (\<lambda>x ys. x \<in> set ys) comb (map (\<lambda>k. [0..<k]) ks)"
    by (simp add: product_lists_set)
  then have len: "length comb = length ks" by (auto dest: list_all2_lengthD)
  have "comb ! m < ks ! m" if "m < length comb" for m
    using list_all2_nthD[OF la that] that len by simp
  with len show ?thesis by (simp add: in_range_def)
qed

lemma gather_features_result:
  "gather_features features = Inr (ks, names) \<Longrightarrow>
   ks = map option_count features \<and> length names = length features"
proof (induction features arbitrary: ks names)
  case Nil
  then show ?case by simp
next
  case (Cons f fs)
  from Cons.prems obtain t ks' names' where
    "caption f = Some t" and g: "gather_features fs = Inr (ks', names')"
    and "ks = option_count f # ks'" and "names = feature_name t # names'"
    by (auto split: option.splits sum.splits)
  with Cons.IH[OF g] show ?case by simp
qed

lemma click_options_run:
  assumes "click_options pg i names cs h = Inr (parts, h')"
    and "length names = length cs"
  shows "h' = h @ clicks_from i cs"
  using assms
proof (induction names arbitrary: i cs h parts)
  case Nil
  then show ?case by simp
next
  case (Cons name names)
  then obtain c cs' where cs: "cs = c # cs'" by (cases cs) auto
  from Cons.prems(1) cs obtain info parts' where
    rec: "click_options pg (Suc i) names cs' (h @ [(i, c)]) = Inr (parts', h')"
    by (auto split: if_splits option.splits sum.splits)
  from Cons.prems(2) cs have "length names = length cs'" by simp
  from Cons.IH[OF rec this] cs show ?case by simp
qed

lemma click_options_run_parts:
  assumes "click_options pg i names cs h = Inr (parts, h')"
    and "length names = length cs"
    and "\<And>pre p post. clicks_from i cs = pre @ p # post \<Longrightarrow>
           relative_text pg (h @ pre @ [p]) p = Some (label (fst p) (snd p))"
  shows "parts = expected_parts label i names cs"
  using assms
proof (induction names arbitrary: i cs h parts)
  case Nil
  then show ?case by simp
next
  case (Cons name names)
  then obtain c cs' where cs: "cs = c # cs'" by (cases cs) auto
  from Cons.prems(1) cs obtain info parts' where
    info: "relative_text pg (h @ [(i, c)]) (i, c) = Some info"
    and rec: "click_options pg (Suc i) names cs' (h @ [(i, c)]) = Inr (parts', h')"
    and parts: "parts = (name @ '': '' @ info) # parts'"
    by (auto split: if_splits option.splits sum.splits)
  have "clicks_from i cs = [] @ (i, c) # clicks_from (Suc i) cs'" using cs by simp
  from Cons.prems(3)[OF this] info have i0: "info = label i c" by simp
  from Cons.prems(2) cs have len: "length names = length cs'" by simp
  have "parts' = expected_parts label (Suc i) names cs'"
  proof (rule Cons.IH[OF rec len])
    fix pre p post assume "clicks_from (Suc i) cs' = pre @ p # post"
    then have "clicks_from i cs = ((i, c) # pre) @ p # post" using cs by simp
    from Cons.prems(3)[OF this]
    show "relative_text pg ((h @ [(i, c)]) @ pre @ [p]) p = Some (label (fst p) (snd p))"
      by simp
  qed
  with parts i0 cs show ?case by simp
qed

lemma emit_variants_step:
  assumes "emit_variants pg names (comb # rest) h = (items, lg, None)"
  obtains parts h' item lg1 v items' lg' where
    "click_options pg 0 names comb h = Inr (parts, h')"
    and "parse_product_data pg h' = (Inr item, lg1)"
    and "variant_item item (py_join '' | '' parts) = Inr v"
    and "emit_variants pg names rest h' = (items', lg', None)"
    and "items = v # items'"
  using assms by (auto split: sum.splits prod.splits)

lemma emit_variants_run_length:
  "emit_variants pg names combos h = (items, lg, None) \<Longrightarrow> length items = length combos"
proof (induction combos arbitrary: h items lg)
  case Nil
  then show ?case by simp
next
  case (Cons comb rest)
  from Cons.prems obtain h' items' lg' v where
    "emit_variants pg names rest h' = (items', lg', None)" and "items = v # items'"
    by (rule emit_variants_step)
  with Cons.IH show ?case by simp
qed

lemma emit_variants_run_names:
  assumes "emit_variants pg names combos h = (items, lg, None)"
    and "\<forall>comb \<in> set combos. length comb = length names"
    and "\<And>pre p post. concat (map (clicks_from 0) combos) = pre @ p # post \<Longrightarrow>
           relative_text pg (h @ pre @ [p]) p = Some (label (fst p) (snd p))"
  shows "variant_names_of items =
           map (\<lambda>comb. stored_name (py_join '' | '' (expected_parts label 0 names comb))) combos"
  using assms
proof (induction combos arbitrary: h items lg)
  case Nil
  then show ?case by (simp add: variant_names_of_def)
next
  case (Cons comb rest)
  from Cons.prems(1) obtain parts h' item lg1 v items' lg' where
    co: "click_options pg 0 names comb h = Inr (parts, h')"
    and pd: "parse_product_data pg h' = (Inr item, lg1)"
    and vi: "variant_item item (py_join '' | '' parts) = Inr v"
    and em: "emit_variants pg names rest h' = (items', lg', None)"
    and items: "items = v # items'"
    by (rule emit_variants_step)
  from Cons.prems(2) have len: "length names = length comb" by simp
  from click_options_run[OF co len] have h': "h' = h @ clicks_from 0 comb" .
  have parts: "parts = expected_parts label 0 names comb"
  proof (rule click_options_run_parts[OF co len])
    fix pre p post assume "clicks_from 0 comb = pre @ p # post"
    then have "concat (map (clicks_from 0) (comb # rest)) =
               pre @ p # (post @ concat (map (clicks_from 0) rest))" by simp
    from Cons.prems(3)[OF this]
    show "relative_text pg (h @ pre @ [p]) p = Some (label (fst p) (snd p))" .
  qed
  from pd have "base_item item" by (rule parse_product_data_base_item)
  from variant_item_base[OF this, of "py_join '' | '' parts"] vi
  have vn: "v Variant_name = stored_name (py_join '' | '' parts)"
    by (auto simp: stored_name_def)
  have "variant_names_of items' =
          map (\<lambda>comb. stored_name (py_join '' | '' (expected_parts label 0 names comb))) rest"
  proof (rule Cons.IH[OF em])
    show "\<forall>comb \<in> set rest. length comb = length names" using Cons.prems(2) by simp
    fix pre p post assume "concat (map (clicks_from 0) rest) = pre @ p # post"
    then have "concat (map (clicks_from 0) (comb # rest)) =
               (clicks_from 0 comb @ pre) @ p # post" by simp
    from Cons.prems(3)[OF this]
    show "relative_text pg (h' @ pre @ [p]) p = Some (label (fst p) (snd p))"
      by (simp add: h')
  qed
  with vn parts items show ?case by (simp add: variant_names_of_def)
qed

lemma length_index_combinations:
  "length (product_lists (map (\<lambda>k. [0..<k]) ks)) = prod_list ks"
  by (induction ks) (simp_all add: length_concat comp_def sum_list_triv)

subsection \<open>Joined variant names\<close>

lemma colon_not_space: "\<not> py_isspace (CHR '':'')"
  by (simp add: py_isspace_def)

lemma bar_not_blank: "CHR ''|'' \<noteq> CHR '' ''"
  by simp

lemma first_occurrence_split:
  assumes "x \<notin> set xs" and "x \<notin> set xs'" and "xs @ x # ys = xs' @ x # ys'"
  shows "xs = xs' \<and> ys = ys'"
  using assms
proof (induction xs arbitrary: xs')
  case Nil
  then show ?case by (cases xs') auto
next
  case (Cons a xs)
  then show ?case by (cases xs') auto
qed

lemma join_parts_Cons2:
  "py_join sep (expected_parts label i (n1 # n2 # ns) (c1 # c2 # cs)) =
     n1 @ '': '' @ label i c1 @ sep @ py_join sep (expected_parts label (Suc i) (n2 # ns) (c2 # cs))"
  by simp

lemma join_parts_single:
  "py_join sep (expected_parts label i [n1] [c1]) = n1 @ '': '' @ label i c1"
  by simp

lemma join_parts_append_inj:
  assumes "names \<noteq> []" and "length names = length cs" and "length names = length cs'"
    and "\<forall>m < length cs. CHR ''|'' \<notin> set (label (i + m) (cs ! m))"
    and "\<forall>m < length cs'. CHR ''|'' \<notin> set (label (i + m) (cs' ! m))"
    and "py_join '' | '' (expected_parts label i names cs) =
         py_join '' | '' (expected_parts label i names cs') @ t"
  shows "(\<forall>m. Suc m < length cs \<longrightarrow> label (i + m) (cs ! m) = label (i + m) (cs' ! m)) \<and>
         label (i + (length cs - 1)) (cs ! (length cs - 1)) =
         label (i + (length cs - 1)) (cs' ! (length cs - 1)) @ t"
  using assms
proof (induction names arbitrary: i cs cs' rule: list_nonempty_induct)
  case (single n1)
  then obtain c where cs: "cs = [c]" by (cases cs) auto
  from single obtain c' where cs': "cs' = [c']" by (cases cs') auto
  from single.prems(5) show ?case unfolding cs cs' by simp
next
  case (cons n1 ns)
  from cons.hyps obtain n2 ns2 where ns: "ns = n2 # ns2" by (cases ns) auto
  from cons.prems(1) ns obtain c1 c2 cs2 where cs: "cs = c1 # c2 # cs2"
    by (cases cs; cases "tl cs") auto
  from cons.prems(2) ns obtain d1 d2 ds2 where cs': "cs' = d1 # d2 # ds2"
    by (cases cs'; cases "tl cs'") auto
  let ?r = "py_join '' | '' (expected_parts label (Suc i) ns (c2 # cs2))"
  let ?r' = "py_join '' | '' (expected_parts label (Suc i) ns (d2 # ds2))"
  have b1: "CHR ''|'' \<notin> set (label i c1 @ '' '')"
    using cons.prems(3)[rule_format, of 0] cs by simp
  have b2: "CHR ''|'' \<notin> set (label i d1 @ '' '')"
    using cons.prems(4)[rule_format, of 0] cs' by simp
  have "n1 @ '': '' @ label i c1 @ '' | '' @ ?r = n1 @ '': '' @ label i d1 @ '' | '' @ ?r' @ t"
    using cons.prems(5) unfolding cs cs' ns by (simp only: join_parts_Cons2 append_assoc)
  then have "(label i c1 @ '' '') @ CHR ''|'' # ('' '' @ ?r) =
             (label i d1 @ '' '') @ CHR ''|'' # ('' '' @ ?r' @ t)"
    by simp
  then have "label i c1 @ '' '' = label i d1 @ '' '' \<and> '' '' @ ?r = '' '' @ ?r' @ t"
    using b1 b2 by (intro first_occurrence_split)
  then have l1: "label i c1 = label i d1" and rest: "?r = ?r' @ t" by simp_all
  have ih: "(\<forall>m. Suc m < length (c2 # cs2) \<longrightarrow>
               label (Suc i + m) ((c2 # cs2) ! m) = label (Suc i + m) ((d2 # ds2) ! m)) \<and>
         label (Suc i + (length (c2 # cs2) - 1)) ((c2 # cs2) ! (length (c2 # cs2) - 1)) =
         label (Suc i + (length (c2 # cs2) - 1)) ((d2 # ds2) ! (length (c2 # cs2) - 1)) @ t"
  proof (rule cons.IH)
    show "length ns = length (c2 # cs2)" using cons.prems(1) cs by simp
    show "length ns = length (d2 # ds2)" using cons.prems(2) cs' by simp
    show "\<forall>m<length (c2 # cs2). CHR ''|'' \<notin> set (label (Suc i + m) ((c2 # cs2) ! m))"
    proof (intro allI impI)
      fix m assume "m < length (c2 # cs2)"
      then show "CHR ''|'' \<notin> set (label (Suc i + m) ((c2 # cs2) ! m))"
        using cons.prems(3)[rule_format, of "Suc m"] cs by simp
    qed
    show "\<forall>m<length (d2 # ds2). CHR ''|'' \<notin> set (label (Suc i + m) ((d2 # ds2) ! m))"
    proof (intro allI impI)
      fix m assume "m < length (d2 # ds2)"
      then show "CHR ''|'' \<notin> set (label (Suc i + m) ((d2 # ds2) ! m))"
        using cons.prems(4)[rule_format, of "Suc m"] cs' by simp
    qed
    show "?r = ?r' @ t" by (rule rest)
  qed
  show ?case
  proof (intro conjI allI impI)
    fix m assume m: "Suc m < length cs"
    show "label (i + m) (cs ! m) = label (i + m) (cs' ! m)"
    proof (cases m)
      case 0
      with l1 cs cs' show ?thesis by simp
    next
      case (Suc k)
      with m cs have "Suc k < length (c2 # cs2)" by simp
      with ih have "label (Suc i + k) ((c2 # cs2) ! k) = label (Suc i + k) ((d2 # ds2) ! k)"
        by blast
      with Suc cs cs' show ?thesis by simp
    qed
  next
    from ih have "label (Suc i + length cs2) ((c2 # cs2) ! length cs2) =
                  label (Suc i + length cs2) ((d2 # ds2) ! length cs2) @ t"
      by simp
    then show "label (i + (length cs - 1)) (cs ! (length cs - 1)) =
               label (i + (length cs - 1)) (cs' ! (length cs - 1)) @ t"
      unfolding cs cs' by simp
  qed
qed

lemma join_parts_end:
  assumes "names \<noteq> []" and "length names = length cs"
  shows "\<exists>W. py_join sep (expected_parts label i names cs) =
             W @ '':'' @ '' '' @ label (i + (length cs - 1)) (cs ! (length cs - 1))"
  using assms
proof (induction names arbitrary: i cs rule: list_nonempty_induct)
  case (single n1)
  then obtain c where cs: "cs = [c]" by (cases cs) auto
  show ?case unfolding cs by (rule exI[of _ n1]) simp
next
  case (cons n1 ns)
  from cons.hyps obtain n2 ns2 where ns: "ns = n2 # ns2" by (cases ns) auto
  from cons.prems ns obtain c1 c2 cs2 where cs: "cs = c1 # c2 # cs2"
    by (cases cs; cases "tl cs") auto
  have "length ns = length (c2 # cs2)" using cons.prems cs by simp
  from cons.IH[OF this, of "Suc i"] obtain W where
    w: "py_join sep (expected_parts label (Suc i) ns (c2 # cs2)) =
         W @ '':'' @ '' '' @ label (Suc i + length cs2) ((c2 # cs2) ! length cs2)"
    by auto
  show ?case
    unfolding cs ns join_parts_Cons2
    using w unfolding ns
    by (intro exI[of _ "n1 @ '': '' @ label i c1 @ sep @ W"]) simp
qed

lemma join_parts_begin:
  assumes "length (n1 # ns) = length cs"
  shows "\<exists>X. py_join sep (expected_parts label i (n1 # ns) cs) = n1 @ '':'' @ '' '' @ X"
proof -
  from assms obtain c1 cs1 where cs: "cs = c1 # cs1" by (cases cs) auto
  show ?thesis
  proof (cases ns)
    case Nil
    with assms cs show ?thesis by simp
  next
    case (Cons n2 ns2)
    with assms cs obtain c2 cs2 where "cs1 = c2 # cs2" by (cases cs1) auto
    with cs Cons show ?thesis by simp
  qed
qed

lemma rstrip_keep:
  assumes "R \<noteq> []" and "\<not> py_isspace (last R)" and "\<forall>c \<in> set u. py_isspace c"
  shows "rev (dropWhile py_isspace (rev (R @ u))) = R"
proof -
  have "dropWhile py_isspace (rev u @ rev R) = dropWhile py_isspace (rev R)"
    using assms(3) by (intro dropWhile_append2) simp
  moreover have "dropWhile py_isspace (rev R) = rev R"
    using assms(1,2) by (cases "rev R") (auto simp: last_rev hd_rev[symmetric])
  ultimately show ?thesis by simp
qed

lemma py_strip_decomp:
  assumes s: "s = n1 @ '':'' @ '' '' @ X" and ru: "s = R @ u"
    and R: "R \<noteq> []" "\<not> py_isspace (last R)" and u: "u = [] \<or> u = '' ''"
  shows "py_strip s = drop (length (takeWhile py_isspace n1)) R \<and>
         take (length (takeWhile py_isspace n1)) R = take (length (takeWhile py_isspace n1)) n1"
proof -
  let ?k = "length (takeWhile py_isspace n1)"
  have tw: "takeWhile py_isspace s = takeWhile py_isspace n1"
    unfolding s using colon_not_space by (simp add: takeWhile_tail)
  have k: "?k \<le> length n1" by (rule length_takeWhile_le)
  have "length s \<le> length R + 1" using ru u by auto
  moreover have "length n1 + 2 \<le> length s" unfolding s by simp
  ultimately have lR: "length n1 < length R" by simp
  have l: "dropWhile py_isspace s = drop ?k R @ u"
    using tw ru k lR by (simp add: dropWhile_eq_drop)
  have ne: "drop ?k R \<noteq> []" using k lR by simp
  have la: "last (drop ?k R) = last R" using k lR by simp
  have us: "\<forall>c \<in> set u. py_isspace c" using u by (auto simp: py_isspace_def)
  have a: "py_strip s = drop ?k R"
    unfolding py_strip_def l using ne la R(2) us by (intro rstrip_keep) simp_all
  have "take ?k R = take ?k s" using ru k lR by simp
  also have "\<dots> = take ?k n1" unfolding s using k by simp
  finally show ?thesis using a by simp
qed

lemma join_parts_decomp:
  assumes "names \<noteq> []" and "length names = length cs"
    and "label (i + (length cs - 1)) (cs ! (length cs - 1)) = [] \<or>
         \<not> py_isspace (last (label (i + (length cs - 1)) (cs ! (length cs - 1))))"
  shows "\<exists>R u. py_join sep (expected_parts label i names cs) = R @ u \<and> R \<noteq> [] \<and>
               \<not> py_isspace (last R) \<and> (u = [] \<or> u = '' '')"
proof -
  let ?l = "label (i + (length cs - 1)) (cs ! (length cs - 1))"
  from join_parts_end[where label=label and i=i and sep=sep, OF assms(1,2)] obtain W where
    w: "py_join sep (expected_parts label i names cs) = W @ '':'' @ '' '' @ ?l" by auto
  show ?thesis
  proof (cases "?l = []")
    case True
    show ?thesis
    proof (intro exI conjI)
      show "py_join sep (expected_parts label i names cs) = (W @ '':'') @ '' ''"
        using w True by simp
      show "W @ '':'' \<noteq> []" by simp
      show "\<not> py_isspace (last (W @ '':''))" using colon_not_space by simp
      show "'' '' = [] \<or> '' '' = '' ''" by simp
    qed
  next
    case False
    show ?thesis
    proof (intro exI conjI)
      show "py_join sep (expected_parts label i names cs) = (W @ '':'' @ '' '' @ ?l) @ []"
        using w by simp
      show "W @ '':'' @ '' '' @ ?l \<noteq> []" by simp
      show "\<not> py_isspace (last (W @ '':'' @ '' '' @ ?l))" using False assms(3) by simp
      show "[] = [] \<or> [] = '' ''" by simp
    qed
  qed
qed

lemma stored_name_inj:
  assumes ne: "names \<noteq> []" and n: "length names = length ks"
    and r: "in_range ks cs" and r': "in_range ks cs'"
    and bar: "\<And>i j. i < length ks \<Longrightarrow> j < ks ! i \<Longrightarrow> CHR ''|'' \<notin> set (label i j)"
    and trail: "\<And>i j. i < length ks \<Longrightarrow> j < ks ! i \<Longrightarrow>
                   label i j = [] \<or> \<not> py_isspace (last (label i j))"
    and inj: "\<And>i j j'. i < length ks \<Longrightarrow> j < ks ! i \<Longrightarrow> j' < ks ! i \<Longrightarrow>
                   label i j' = label i j \<Longrightarrow> j' = j"
    and eq: "stored_name (py_join '' | '' (expected_parts label 0 names cs)) =
             stored_name (py_join '' | '' (expected_parts label 0 names cs'))"
  shows "cs = cs'"
proof -
  let ?s = "py_join '' | '' (expected_parts label 0 names cs)"
  let ?s' = "py_join '' | '' (expected_parts label 0 names cs')"
  from r r' n have len: "length names = length cs" "length names = length cs'"
    "length cs = length ks" "length cs' = length ks"
    by (simp_all add: in_range_def)
  have pos: "0 < length ks" using ne n by (cases names) auto
  have rng: "cs ! m < ks ! m" "cs' ! m < ks ! m" if "m < length ks" for m
    using r r' that by (simp_all add: in_range_def)
  from eq have st: "py_strip ?s = py_strip ?s'"
    by (auto simp: stored_name_def split: if_splits)
  from ne obtain n1 ns where names: "names = n1 # ns" by (cases names) auto
  from join_parts_begin[of n1 ns cs "'' | ''" label 0] len names obtain X
    where b: "?s = n1 @ '':'' @ '' '' @ X" by auto
  from join_parts_begin[of n1 ns cs' "'' | ''" label 0] len names obtain X'
    where b': "?s' = n1 @ '':'' @ '' '' @ X'" by auto
  have t1: "label (0 + (length cs - 1)) (cs ! (length cs - 1)) = [] \<or>
         \<not> py_isspace (last (label (0 + (length cs - 1)) (cs ! (length cs - 1))))"
    using trail[of "length ks - 1" "cs ! (length ks - 1)"] rng(1)[of "length ks - 1"] pos len
    by simp
  have t2: "label (0 + (length cs' - 1)) (cs' ! (length cs' - 1)) = [] \<or>
         \<not> py_isspace (last (label (0 + (length cs' - 1)) (cs' ! (length cs' - 1))))"
    using trail[of "length ks - 1" "cs' ! (length ks - 1)"] rng(2)[of "length ks - 1"] pos len
    by simp
  from join_parts_decomp[where label=label and i=0 and sep="'' | ''" and cs=cs, OF ne len(1) t1] obtain R u where
    d: "?s = R @ u" "R \<noteq> []" "\<not> py_isspace (last R)" "u = [] \<or> u = '' ''" by auto
  from join_parts_decomp[where label=label and i=0 and sep="'' | ''" and cs=cs', OF ne len(2) t2] obtain R' u' where
    d': "?s' = R' @ u'" "R' \<noteq> []" "\<not> py_isspace (last R')" "u' = [] \<or> u' = '' ''" by auto
  let ?k = "length (takeWhile py_isspace n1)"
  from py_strip_decomp[OF b d] have p: "py_strip ?s = drop ?k R" "take ?k R = take ?k n1"
    by simp_all
  from py_strip_decomp[OF b' d'] have p': "py_strip ?s' = drop ?k R'" "take ?k R' = take ?k n1"
    by simp_all
  have "R = take ?k R @ drop ?k R" by simp
  also have "\<dots> = take ?k R' @ drop ?k R'" using p p' st by simp
  finally have RR: "R = R'" by simp
  have bars: "\<forall>m < length cs. CHR ''|'' \<notin> set (label (0 + m) (cs ! m))"
    "\<forall>m < length cs'. CHR ''|'' \<notin> set (label (0 + m) (cs' ! m))"
    using bar rng len by simp_all
  have labels: "\<forall>m < length ks. label m (cs ! m) = label m (cs' ! m)"
  proof -
    consider (same) "u = u'" | (left) "u = '' ''" "u' = []" | (right) "u = []" "u' = '' ''"
      using d(4) d'(4) by auto
    then show ?thesis
    proof cases
      case same
      with d(1) d'(1) RR have "?s = ?s' @ []" by simp
      from join_parts_append_inj[where label=label and i=0 and cs=cs and cs'=cs', OF ne len(1) len(2) bars this]
      have a: "\<forall>m. Suc m < length cs \<longrightarrow> label (0 + m) (cs ! m) = label (0 + m) (cs' ! m)"
        and l: "label (0 + (length cs - 1)) (cs ! (length cs - 1)) =
               label (0 + (length cs - 1)) (cs' ! (length cs - 1)) @ []" by simp_all
      show ?thesis
      proof (intro allI impI)
        fix m assume m: "m < length ks"
        show "label m (cs ! m) = label m (cs' ! m)"
        proof (cases "Suc m < length cs")
          case True
          with a show ?thesis by simp
        next
          case False
          with m len have "m = length cs - 1" by simp
          with l show ?thesis by simp
        qed
      qed
    next
      case left
      with d(1) d'(1) RR have "?s = ?s' @ '' ''" by simp
      from join_parts_append_inj[where label=label and i=0 and cs=cs and cs'=cs', OF ne len(1) len(2) bars this]
      have l: "label (0 + (length cs - 1)) (cs ! (length cs - 1)) =
               label (0 + (length cs - 1)) (cs' ! (length cs - 1)) @ '' ''" by simp
      then have "label (0 + (length cs - 1)) (cs ! (length cs - 1)) \<noteq> []"
        "py_isspace (last (label (0 + (length cs - 1)) (cs ! (length cs - 1))))"
        by (simp_all add: py_isspace_def)
      with t1 show ?thesis by simp
    next
      case right
      with d(1) d'(1) RR have "?s' = ?s @ '' ''" by simp
      from join_parts_append_inj[where label=label and i=0 and cs=cs' and cs'=cs, OF ne len(2) len(1) bars(2) bars(1) this]
      have l: "label (0 + (length cs' - 1)) (cs' ! (length cs' - 1)) =
               label (0 + (length cs' - 1)) (cs ! (length cs' - 1)) @ '' ''" by simp
      then have "label (0 + (length cs' - 1)) (cs' ! (length cs' - 1)) \<noteq> []"
        "py_isspace (last (label (0 + (length cs' - 1)) (cs' ! (length cs' - 1))))"
        by (simp_all add: py_isspace_def)
      with t2 show ?thesis by simp
    qed
  qed
  show "cs = cs'"
  proof (rule nth_equalityI)
    show "length cs = length cs'" using len by simp
    fix m assume "m < length cs"
    then have m: "m < length ks" using len by simp
    from labels m have "label m (cs' ! m) = label m (cs ! m)" by simp
    from inj[OF m rng(1)[OF m] rng(2)[OF m] this] show "cs ! m = cs' ! m" by simp
  qed
qed

subsection \<open>Number and names of the variant records\<close>

text \<open>
  Claim C2 as stated fails in both parts.  On \<open>two_red_page\<close> the variant region
  has one feature group with two options that show the same label: two records are
  emitted and both carry the \<open>variant_name\<close> \<open>Color: Red\<close>.  On
  \<open>stuck_page\<close> the group has two options and the click on the second raises: one
  record is emitted instead of two, and the warning is logged.
\<close>

theorem variant_count_and_names_counterexample:
  "variant_block two_red_page = Some [\<lparr>option_count = 2, caption = Some ''Color:''\<rparr>] \<and>
   variant_names_of (fst (parse_product_variants two_red_page)) =
     [Some (JStr ''Color: Red''), Some (JStr ''Color: Red'')] \<and>
   \<not> distinct (variant_names_of (fst (parse_product_variants two_red_page))) \<and>
   variant_block stuck_page = Some [\<lparr>option_count = 2, caption = Some ''Color:''\<rparr>] \<and>
   length (fst (parse_product_variants stuck_page)) = 1 \<and>
   snd (parse_product_variants stuck_page) = [LogWarning ''Product parsing error on '']"
proof -
  have a: "variant_names_of (fst (parse_product_variants two_red_page)) =
     [Some (JStr ''Color: Red''), Some (JStr ''Color: Red'')]"
    by code_simp
  have b: "length (fst (parse_product_variants stuck_page)) = 1" by code_simp
  have c: "snd (parse_product_variants stuck_page) = [LogWarning ''Product parsing error on '']"
    by code_simp
  show ?thesis
    unfolding a using b c by (simp add: two_red_page_def stuck_page_def lamp_page_def)
qed

text \<open>
  Claim C2, as the code has it.  Let the variant region be present with
  \<open>N \<ge> 1\<close> feature groups, and let no step of the enumeration raise: the body
  of \<open>parse_product_variants\<close> ends without an exception.  Then exactly
  \<open>k1 \<times> ... \<times> kN\<close> records are emitted and no warning is added to the log.
  If moreover every label that the enumeration reads for option \<open>j\<close> of group
  \<open>i\<close> is the text \<open>label i j\<close>, the labels of one group are pairwise
  different, no label contains the character \<open>|\<close> and no label ends in white
  space, then the \<open>variant_name\<close> values of these records are pairwise
  distinct.  Only the states of the session that the enumeration reaches are
  spoken of: \<open>pre\<close> is the list of the clicks made before the click \<open>p\<close>.
  (Nothing is said about the base record.)
\<close>

theorem variant_records_when_no_step_raises:
  assumes vb: "variant_block pg = Some features"
    and ne: "features \<noteq> []"
    and ok: "snd (snd (variants_body pg)) = None"
  shows "length (fst (parse_product_variants pg)) = prod_list (map option_count features) \<and>
         parse_product_variants pg = (fst (variants_body pg), fst (snd (variants_body pg))) \<and>
         ((\<forall>pre p post. enumeration_clicks features = pre @ p # post \<longrightarrow>
              relative_text pg (pre @ [p]) p = Some (label (fst p) (snd p))) \<and>
          (\<forall>i j. i < length features \<longrightarrow> j < option_count (features ! i) \<longrightarrow>
              CHR ''|'' \<notin> set (label i j) \<and>
              (label i j = [] \<or> \<not> py_isspace (last (label i j))) \<and>
              (\<forall>j' < option_count (features ! i). label i j' = label i j \<longrightarrow> j' = j))
          \<longrightarrow> distinct (variant_names_of (fst (parse_product_variants pg))))"
proof -
  let ?ks = "map option_count features"
  let ?combos = "product_lists (map (\<lambda>k. [0..<k]) ?ks)"
  obtain items lg where body: "variants_body pg = (items, lg, None)"
    using ok by (cases "variants_body pg") auto
  have out: "parse_product_variants pg = (items, lg)"
    using body by (simp add: parse_product_variants_def)
  from body vb obtain ks names where g: "gather_features features = Inr (ks, names)"
    and em0: "emit_variants pg names (product_lists (map (\<lambda>i. [0..<i]) ks)) [] = (items, lg, None)"
    by (auto simp: variants_body_def split: sum.splits)
  from gather_features_result[OF g] have ks: "ks = ?ks" and ln: "length names = length ?ks"
    by simp_all
  from em0 ks have em: "emit_variants pg names ?combos [] = (items, lg, None)" by simp
  have nne: "names \<noteq> []" using ne ln by auto
  have count: "length (fst (parse_product_variants pg)) = prod_list ?ks"
    using out emit_variants_run_length[OF em] length_index_combinations[of ?ks] by simp
  have same: "parse_product_variants pg = (fst (variants_body pg), fst (snd (variants_body pg)))"
    using out body by simp
  have names_distinct: "distinct (variant_names_of (fst (parse_product_variants pg)))"
    if lab: "(\<forall>pre p post. enumeration_clicks features = pre @ p # post \<longrightarrow>
              relative_text pg (pre @ [p]) p = Some (label (fst p) (snd p))) \<and>
          (\<forall>i j. i < length features \<longrightarrow> j < option_count (features ! i) \<longrightarrow>
              CHR ''|'' \<notin> set (label i j) \<and>
              (label i j = [] \<or> \<not> py_isspace (last (label i j))) \<and>
              (\<forall>j' < option_count (features ! i). label i j' = label i j \<longrightarrow> j' = j))"
  proof -
    have bar: "CHR ''|'' \<notin> set (label i j)" if "i < length ?ks" "j < ?ks ! i" for i j
      using lab that by simp
    have trail: "label i j = [] \<or> \<not> py_isspace (last (label i j))"
      if "i < length ?ks" "j < ?ks ! i" for i j
      using lab that by simp
    have inj: "j' = j" if "i < length ?ks" "j < ?ks ! i" "j' < ?ks ! i" "label i j' = label i j"
      for i j j'
      using lab that by simp
    have lens: "\<forall>comb \<in> set ?combos. length comb = length names"
      using product_lists_in_range[of _ ?ks] ln by (auto simp: in_range_def)
    have vn: "variant_names_of items =
        map (\<lambda>comb. stored_name (py_join '' | '' (expected_parts label 0 names comb))) ?combos"
    proof (rule emit_variants_run_names[OF em lens])
      fix pre p post assume "concat (map (clicks_from 0) ?combos) = pre @ p # post"
      then have "enumeration_clicks features = pre @ p # post"
        by (simp add: enumeration_clicks_def)
      with lab have "relative_text pg (pre @ [p]) p = Some (label (fst p) (snd p))"
        by blast
      then show "relative_text pg ([] @ pre @ [p]) p = Some (label (fst p) (snd p))"
        by simp
    qed
    have dc: "distinct ?combos"
      by (rule distinct_product_lists) auto
    have io: "inj_on (\<lambda>comb. stored_name (py_join '' | '' (expected_parts label 0 names comb)))
                (set ?combos)"
    proof (rule inj_onI)
      fix cs cs' assume a: "cs \<in> set ?combos" "cs' \<in> set ?combos"
        and e: "stored_name (py_join '' | '' (expected_parts label 0 names cs)) =
                stored_name (py_join '' | '' (expected_parts label 0 names cs'))"
      from a have r: "in_range ?ks cs" "in_range ?ks cs'"
        by (simp_all add: product_lists_in_range)
      show "cs = cs'"
        by (rule stored_name_inj[of names ?ks cs cs' label, OF nne ln r bar trail inj e])
    qed
    from dc io have "distinct (variant_names_of items)"
      unfolding vn by (simp add: distinct_map)
    with out show ?thesis by simp
  qed
  from count same names_distinct show ?thesis by blast
qed

lemma parse_product_data_scripts:
  "product_script pg h = product_script pg' h \<Longrightarrow>
   breadcrumb_script pg h = breadcrumb_script pg' h \<Longrightarrow>
   parse_product_data pg h = parse_product_data pg' h"
  unfolding parse_product_data_def by (erule ssubst, erule ssubst) (rule refl)

lemma shirt_data:
  "fst (parse_product_data shirt_page h) =
     Inr [Name \<mapsto> JStr ''Lamp X'', Url \<mapsto> JStr ''https://x/lamp-p-1'', Sku \<mapsto> JStr ''SKU1'',
           Price \<mapsto> JNum 120000, Main_category \<mapsto> JStr ''Lighting'',
           Sub_categories \<mapsto> JStr ''LED'']"
proof -
  have "parse_product_data shirt_page h = parse_product_data lamp_page h"
    by (rule parse_product_data_scripts) (simp_all add: shirt_page_def)
  then show ?thesis by (simp add: lamp_item)
qed

lemma shirt_labels:
  assumes "i < 2" and "j < [2, 3] ! i"
  shows "CHR ''|'' \<notin> set (option_label i j) \<and>
         (option_label i j = [] \<or> \<not> py_isspace (last (option_label i j))) \<and>
         (\<forall>j' < [2, 3] ! i. option_label i j' = option_label i j \<longrightarrow> j' = j)"
proof -
  from assms(1) consider "i = 0" | "i = 1" by linarith
  then show ?thesis
  proof cases
    case 1
    with assms(2) consider "j = 0" | "j = 1" by fastforce
    then show ?thesis
      using 1 by cases (auto simp: option_label_def py_isspace_def less_Suc_eq numeral_2_eq_2)
  next
    case 2
    with assms(2) consider "j = 0" | "j = 1" | "j = 2" by fastforce
    then show ?thesis
      using 2 by cases (auto simp: option_label_def py_isspace_def less_Suc_eq numeral_3_eq_3)
  qed
qed

text \<open>
  \<open>shirt_page\<close>, with two colours and three sizes: six records with six
  different names.  On \<open>lazy_page\<close> the base extraction raises before the
  first click, a state that the enumeration does not extract from: six records
  again.
\<close>

theorem variant_records_when_no_step_raises_witness:
  "length (fst (parse_product_variants shirt_page)) = 6 \<and>
   distinct (variant_names_of (fst (parse_product_variants shirt_page))) \<and>
   variant_names_of (fst (parse_product_variants shirt_page)) =
     [Some (JStr ''Color: Red | Size: S''), Some (JStr ''Color: Red | Size: M''),
      Some (JStr ''Color: Red | Size: L''), Some (JStr ''Color: Blue | Size: S''),
      Some (JStr ''Color: Blue | Size: M''), Some (JStr ''Color: Blue | Size: L'')] \<and>
   fst (parse_product_data lazy_page []) = Inl TimeoutException \<and>
   length (fst (parse_product_variants lazy_page)) = 6"
proof -
  let ?features = "[\<lparr>option_count = 2, caption = Some ''Color:''\<rparr>,
                    \<lparr>option_count = 3, caption = Some ''Size:''\<rparr>]"
  have vb: "variant_block shirt_page = Some ?features"
    by (simp add: shirt_page_def)
  have ne: "?features \<noteq> []" by simp
  have ok: "snd (snd (variants_body shirt_page)) = None" by code_simp
  have oc: "option_count (?features ! i) = [2, 3] ! i" if "i < 2" for i
    using that by (auto simp: less_Suc_eq numeral_2_eq_2)
  have lab1: "\<forall>pre p post. enumeration_clicks ?features = pre @ p # post \<longrightarrow>
              relative_text shirt_page (pre @ [p]) p = Some (option_label (fst p) (snd p))"
    by (simp add: shirt_page_def)
  have lab2: "\<forall>i j. i < length ?features \<longrightarrow> j < option_count (?features ! i) \<longrightarrow>
              CHR ''|'' \<notin> set (option_label i j) \<and>
              (option_label i j = [] \<or> \<not> py_isspace (last (option_label i j))) \<and>
              (\<forall>j' < option_count (?features ! i). option_label i j' = option_label i j \<longrightarrow> j' = j)"
  proof (intro allI impI)
    fix i j
    assume i: "i < length ?features" and j: "j < option_count (?features ! i)"
    from i have i2: "i < 2" by simp
    from j oc[OF i2] have j2: "j < [2, 3] ! i" by simp
    from shirt_labels[OF i2 j2] oc[OF i2]
    show "CHR ''|'' \<notin> set (option_label i j) \<and>
              (option_label i j = [] \<or> \<not> py_isspace (last (option_label i j))) \<and>
              (\<forall>j' < option_count (?features ! i). option_label i j' = option_label i j \<longrightarrow> j' = j)"
      by simp
  qed
  have names: "variant_names_of (fst (parse_product_variants shirt_page)) =
     [Some (JStr ''Color: Red | Size: S''), Some (JStr ''Color: Red | Size: M''),
      Some (JStr ''Color: Red | Size: L''), Some (JStr ''Color: Blue | Size: S''),
      Some (JStr ''Color: Blue | Size: M''), Some (JStr ''Color: Blue | Size: L'')]"
    by code_simp
  note run = variant_records_when_no_step_raises[OF vb ne ok, of option_label]
  from run have "length (fst (parse_product_variants shirt_page)) =
      prod_list (map option_count ?features)"
    by (rule conjunct1)
  then have count: "length (fst (parse_product_variants shirt_page)) = 6" by simp
  have "distinct (variant_names_of (fst (parse_product_variants shirt_page)))"
    by (rule run[THEN conjunct2, THEN conjunct2, THEN mp, OF conjI[OF lab1 lab2]])
  moreover have "fst (parse_product_data lazy_page []) = Inl TimeoutException"
    by (simp add: parse_product_data_Absent lazy_page_def)
  moreover have "length (fst (parse_product_variants lazy_page)) = 6"
  proof -
    have vb': "variant_block lazy_page = Some ?features"
      by (simp add: lazy_page_def shirt_page_def)
    have ok': "snd (snd (variants_body lazy_page)) = None" by code_simp
    from variant_records_when_no_step_raises[OF vb' ne ok', of option_label]
    have "length (fst (parse_product_variants lazy_page)) =
        prod_list (map option_count ?features)"
      by (rule conjunct1)
    then show ?thesis by simp
  qed
  ultimately show ?thesis using count names by (intro conjI)
qed

end
